theory Spec2Isabelle
  imports Complex_Main "HOL-Library.AList"
begin

section \<open>Shared data model\<close>

text \<open>
  The three scripts read the same relational store, whose schema is not part of the
  sources. A table is the list of its rows; a column that the queries test for \<open>NULL\<close> or
  that a company can lack is an \<open>option\<close>, the other columns are taken as not null.
  Amounts and identifiers are integers. A calendar date is the triple that Python's
  \<open>datetime(year, month, day)\<close> holds (the scripts only ever build midnights, and the date
  columns are taken as dates, so the time of day is left out).
\<close>

record datetime =
  dt_year :: int
  dt_month :: int
  dt_day :: int

text \<open>
  A row of \<open>conversations\<close>. The date column is a parameter: the first script does day
  arithmetic on it (a day number, as the store keeps a date), the second one extracts
  month and year from it (a calendar date).
\<close>

record 'd conversation =
  account_id :: int
  date :: 'd
  total :: int
  successful :: bool

record company =
  c_id :: int
  c_name :: string
  associated_partner :: "string option"
  close_date :: "datetime option"

record company_identifier =
  company_id :: int
  account_identifier :: int
  stripe_company_ids :: int

record stripe_invoice =
  si_company_id :: int
  sent_date :: datetime
  amount :: int

text \<open>\<open>SELECT key, SUM(val) ... GROUP BY key\<close>: one row per key that occurs.\<close>

definition group_sum :: "('r \<Rightarrow> 'k) \<Rightarrow> ('r \<Rightarrow> int) \<Rightarrow> 'r list \<Rightarrow> ('k \<times> int) list" where
  "group_sum key val rows =
     map (\<lambda>k. (k, sum_list (map val (filter (\<lambda>r. key r = k) rows)))) (remdups (map key rows))"

text \<open>The aggregates \<open>MIN\<close> and \<open>MAX\<close>: \<open>NULL\<close> over no rows.\<close>

definition sql_min :: "int list \<Rightarrow> int option" where
  "sql_min xs = (case xs of [] \<Rightarrow> None | y # ys \<Rightarrow> Some (fold min ys y))"

definition sql_max :: "int list \<Rightarrow> int option" where
  "sql_max xs = (case xs of [] \<Rightarrow> None | y # ys \<Rightarrow> Some (fold max ys y))"

section \<open>Third script: cohort revenue matrix\<close>

text \<open>Python's \<open>str\<close> of an integer and the format \<open>{:02d}\<close>.\<close>

definition digit :: "nat \<Rightarrow> char" where
  "digit n = ''0123456789'' ! n"

fun str_nat :: "nat \<Rightarrow> string" where
  "str_nat n = (if n < 10 then [digit n] else str_nat (n div 10) @ [digit (n mod 10)])"

declare str_nat.simps [simp del]

definition str :: "int \<Rightarrow> string" where
  "str n = (if n < 0 then CHR ''-'' # str_nat (nat (- n)) else str_nat (nat n))"

definition fmt_02d :: "int \<Rightarrow> string" where
  "fmt_02d n =
     (if n < 0 then CHR ''-'' # replicate (1 - length (str_nat (nat (- n)))) CHR ''0'' @ str_nat (nat (- n))
      else replicate (2 - length (str_nat (nat n))) CHR ''0'' @ str_nat (nat n))"

definition mock_data :: "int \<Rightarrow> int list option" where
  "mock_data = map_of
     [(1, [292, 644, 621, 317, 649, 556, 328, 536]),
      (2, [754, 317, 307, 187, 228, 57, 95]),
      (3, [51, 693, 173, 99, 356, 378]),
      (4, [206, 278, 79, 52, 85]),
      (5, [69, 63, 56, 85]),
      (6, [404, 160, 329]),
      (7, [276, 119]),
      (8, [293])]"

text \<open>\<open>mock_data.get(cohort_month, [])\<close>, then the range check; a bare \<open>return\<close> is \<open>None\<close>.\<close>

definition get_mock_revenue :: "int \<Rightarrow> int \<Rightarrow> int option" where
  "get_mock_revenue cohort_month invoice_month =
     (let cohort_data = (case mock_data cohort_month of None \<Rightarrow> [] | Some xs \<Rightarrow> xs)
      in if 1 \<le> invoice_month \<and> invoice_month \<le> int (length cohort_data)
         then Some (cohort_data ! nat (invoice_month - 1))
         else None)"

text \<open>A row of the data frame handed to the heat map.\<close>

record cohort_row =
  cohort :: string
  invoice_month :: int
  revenue :: "int option"

record store3 =
  companies3 :: "company list"
  identifiers3 :: "company_identifier list"
  invoices3 :: "stripe_invoice list"

definition CompaniesClosedInMonth :: "store3 \<Rightarrow> int \<Rightarrow> int list" where
  "CompaniesClosedInMonth db month =
     map c_id (filter (\<lambda>c. case close_date c of None \<Rightarrow> False
                            | Some d \<Rightarrow> dt_year d = 2023 \<and> dt_month d = month) (companies3 db))"

definition StripeIdsForCompaniesClosedInMonth :: "store3 \<Rightarrow> int \<Rightarrow> int list" where
  "StripeIdsForCompaniesClosedInMonth db month =
     map stripe_company_ids
       (filter (\<lambda>ci. company_id ci \<in> set (CompaniesClosedInMonth db month)) (identifiers3 db))"

text \<open>
  The join lists one row per pair of an invoice and a Stripe identifier equal to its
  \<open>company_id\<close>; the result is \<open>(company_id, invoice_month, total_amount)\<close>.
\<close>

definition InvoicesForCompaniesClosedInMonth :: "store3 \<Rightarrow> int \<Rightarrow> ((int \<times> int) \<times> int) list" where
  "InvoicesForCompaniesClosedInMonth db month =
     group_sum (\<lambda>si. (si_company_id si, dt_month (sent_date si))) amount
       (filter (\<lambda>si. dt_year (sent_date si) = 2023
                     \<and> month \<le> dt_month (sent_date si) \<and> dt_month (sent_date si) \<le> 8)
          (concat (map (\<lambda>si. map (\<lambda>scim. si)
                                (filter (\<lambda>scim. si_company_id si = scim)
                                   (StripeIdsForCompaniesClosedInMonth db month)))
                     (invoices3 db))))"

definition fetch_monthly_data :: "store3 \<Rightarrow> int \<Rightarrow> cohort_row list" where
  "fetch_monthly_data db month =
     map (\<lambda>(m, r). \<lparr>cohort = str month, invoice_month = m, revenue = Some r\<rparr>)
       (sort_key fst (group_sum (\<lambda>((c, m), t). m) snd (InvoicesForCompaniesClosedInMonth db month)))"

definition generate_mock_data :: "cohort_row list" where
  "generate_mock_data =
     concat (map (\<lambda>month.
                    map (\<lambda>i. \<lparr>cohort = ''2023-'' @ fmt_02d month, invoice_month = i,
                               revenue = get_mock_revenue month i\<rparr>) [1..8])
               [1..8])"

section \<open>First script: activation dates and success dates\<close>

text \<open>
  In this script a date is a day number: the queries add and subtract whole days,
  compare dates and take the least one.
\<close>

text \<open>The rows \<open>(account_id, date)\<close>, \<open>daily_total\<close> of the first common table expression.\<close>

definition daily_conversations :: "int conversation list \<Rightarrow> ((int \<times> int) \<times> int) list" where
  "daily_conversations convs = group_sum (\<lambda>r. (account_id r, date r)) total convs"

text \<open>
  \<open>xs LEFT JOIN ys ON on\<close>: every row of \<open>xs\<close> with each of its matches, or once with
  \<open>NULL\<close> when it has none.
\<close>

definition left_join :: "'a list \<Rightarrow> 'b list \<Rightarrow> ('a \<Rightarrow> 'b \<Rightarrow> bool) \<Rightarrow> ('a \<times> 'b option) list" where
  "left_join xs ys on =
     concat (map (\<lambda>x. case filter (on x) ys of
                           [] \<Rightarrow> [(x, None)]
                         | m # ms \<Rightarrow> map (\<lambda>y. (x, Some y)) (m # ms)) xs)"

definition coalesce :: "int option \<Rightarrow> int \<Rightarrow> int" where
  "coalesce v d = (case v of None \<Rightarrow> d | Some x \<Rightarrow> x)"

text \<open>The rows \<open>(account_id, date, total_3_day)\<close> that pass \<open>total_3_day >= 350\<close>.\<close>

definition three_day_conversations :: "int conversation list \<Rightarrow> (int \<times> int \<times> int) list" where
  "three_day_conversations convs =
     (let dc = daily_conversations convs
      in filter (\<lambda>(a, d, t). 350 \<le> t)
           (map (\<lambda>((dc1, dc2), dc3).
                   (fst (fst dc1), snd (fst dc1),
                    snd dc1 + coalesce (map_option snd dc2) 0 + coalesce (map_option snd dc3) 0))
              (left_join
                 (left_join dc dc
                    (\<lambda>dc1 dc2. fst (fst dc1) = fst (fst dc2) \<and> snd (fst dc2) = snd (fst dc1) - 1))
                 dc
                 (\<lambda>(dc1, dc2) dc3. fst (fst dc1) = fst (fst dc3) \<and> snd (fst dc3) = snd (fst dc1) - 2))))"

text \<open>\<open>SELECT account_id, MIN(date) ... GROUP BY account_id\<close>.\<close>

definition first_activation :: "int conversation list \<Rightarrow> (int \<times> int option) list" where
  "first_activation convs =
     (let t = three_day_conversations convs
      in map (\<lambda>a. (a, sql_min (map (\<lambda>(a', d, s). d) (filter (\<lambda>(a', d, s). a' = a) t))))
           (remdups (map fst t)))"

text \<open>A row of the data frame \<open>df_companies\<close>.\<close>

record company_row =
  df_company_id :: int
  df_company_name :: string
  activation_date :: "int option"

text \<open>
  The companies with a partner, each with its activation date or \<open>NULL\<close>. (A failing
  connection makes the source return \<open>None\<close>; the store is taken to answer.)
\<close>

definition fetch_companies_from_db :: "company list \<Rightarrow> int conversation list \<Rightarrow> company_row list" where
  "fetch_companies_from_db companies convs =
     map (\<lambda>(c, f). \<lparr>df_company_id = c_id c, df_company_name = c_name c,
                      activation_date = (case f of None \<Rightarrow> None | Some (a, d) \<Rightarrow> d)\<rparr>)
       (filter (\<lambda>(c, f). case associated_partner c of None \<Rightarrow> False | Some p \<Rightarrow> p \<noteq> [])
          (left_join companies (first_activation convs) (\<lambda>c f. c_id c = fst f)))"

text \<open>
  The words of the specification: the sum of the totals of an account over the day \<open>D\<close>
  and the two days before it (a day without events adds nothing), and whether the account
  has an event on day \<open>D\<close>.
\<close>

definition window_sum :: "int conversation list \<Rightarrow> int \<Rightarrow> int \<Rightarrow> int" where
  "window_sum convs a D =
     sum_list (map total (filter (\<lambda>r. account_id r = a \<and> D - 2 \<le> date r \<and> date r \<le> D) convs))"

definition has_events :: "int conversation list \<Rightarrow> int \<Rightarrow> int \<Rightarrow> bool" where
  "has_events convs a D = ((a, D) \<in> set (map (\<lambda>r. (account_id r, date r)) convs))"

text \<open>The second pass. \<open>adjust\<close> is the list of day offsets, read at the row's position.\<close>

definition adjust :: "int list" where
  "adjust = [0, -25, 65, 165]"

text \<open>The running sum \<open>SUM(total) OVER (ORDER BY date ROWS UNBOUNDED PRECEDING)\<close>.\<close>

fun running :: "int \<Rightarrow> int conversation list \<Rightarrow> (int \<times> int) list" where
  "running acc [] = []"
| "running acc (r # rs) = (date r, acc + total r) # running (acc + total r) rs"

text \<open>
  The successful conversations of the account from the activation date to the end date,
  in date order (rows of one date in the order of the table), as \<open>(date, cum_total)\<close>.
\<close>

definition horizon_rows :: "int conversation list \<Rightarrow> int \<Rightarrow> int \<Rightarrow> int \<Rightarrow> int conversation list" where
  "horizon_rows convs cid a e =
     sort_key date (filter (\<lambda>r. account_id r = cid \<and> successful r \<and> a \<le> date r \<and> date r \<le> e) convs)"

definition CumulativeConversations :: "int conversation list \<Rightarrow> int \<Rightarrow> int \<Rightarrow> int \<Rightarrow> (int \<times> int) list" where
  "CumulativeConversations convs cid a e = running 0 (horizon_rows convs cid a e)"

text \<open>\<open>MIN(date)\<close> over the rows with \<open>cum_total >= 500\<close>, before the offset is added.\<close>

definition first_crossing :: "int conversation list \<Rightarrow> int \<Rightarrow> int \<Rightarrow> int \<Rightarrow> int option" where
  "first_crossing convs cid a e =
     sql_min (map fst (filter (\<lambda>(d, c). 500 \<le> c) (CumulativeConversations convs cid a e)))"

text \<open>The query of one company: \<open>(success_date, cum_total)\<close>; \<open>NULL\<close> plus an interval is \<open>NULL\<close>.\<close>

definition success_query :: "int conversation list \<Rightarrow> int \<Rightarrow> int \<Rightarrow> int \<Rightarrow> int \<Rightarrow> int option \<times> int option" where
  "success_query convs cid a e days =
     (map_option (\<lambda>d. d + days) (first_crossing convs cid a e),
      sql_max (map snd (filter (\<lambda>(d, c). 500 \<le> c) (CumulativeConversations convs cid a e))))"

text \<open>A row of the data frame \<open>df_success_dates\<close>.\<close>

record success_row =
  success_date :: "int option"
  cum_total :: "int option"
  sd_company_id :: int

text \<open>
  The loop over \<open>df_companies.iterrows()\<close>, \<open>idx\<close> counting the rows from 0. Everything in
  the loop stands under one \<open>try\<close> whose handler returns \<open>None\<close>: \<open>adjust[idx]\<close> raises
  \<open>IndexError\<close> from the fifth row on, and a row whose activation date is \<open>NULL\<close> puts no
  date into the query text, which the store rejects.
\<close>

fun fetch_rows :: "int conversation list \<Rightarrow> nat \<Rightarrow> company_row list \<Rightarrow> success_row list option" where
  "fetch_rows convs idx [] = Some []"
| "fetch_rows convs idx (row # rest) =
     (case activation_date row of
        None \<Rightarrow> None
      | Some a \<Rightarrow>
          if idx < length adjust
          then (case success_query convs (df_company_id row) a (a + 60) (adjust ! idx) of
                  (sd, ct) \<Rightarrow>
                    (case fetch_rows convs (Suc idx) rest of
                       None \<Rightarrow> None
                     | Some rs \<Rightarrow>
                         Some (\<lparr>success_date = sd, cum_total = ct,
                                 sd_company_id = df_company_id row\<rparr> # rs)))
          else None)"

text \<open>\<open>pd.concat\<close> of no frames raises \<open>ValueError\<close>, under the same handler.\<close>

definition fetch_successful_conversations ::
    "company_row list \<Rightarrow> int conversation list \<Rightarrow> success_row list option" where
  "fetch_successful_conversations df_companies convs =
     (case fetch_rows convs 0 df_companies of
        None \<Rightarrow> None
      | Some [] \<Rightarrow> None
      | Some (r # rs) \<Rightarrow> Some (r # rs))"



section \<open>Second script: monthly success rate\<close>

text \<open>
  Python's \<open>datetime\<close>: the constructor checks the ranges and raises \<open>ValueError\<close>; adding
  a \<open>timedelta\<close> of whole days that leaves the years 1 to 9999 raises \<open>OverflowError\<close>.
  Adding and subtracting days is stepping through the calendar one day at a time.
\<close>

datatype py_error = ValueError | OverflowError | ProgrammingError

definition is_leap :: "int \<Rightarrow> bool" where
  "is_leap y = (y mod 4 = 0 \<and> (y mod 100 \<noteq> 0 \<or> y mod 400 = 0))"

definition days_in_month :: "int \<Rightarrow> int \<Rightarrow> int" where
  "days_in_month y m =
     (if m = 2 then (if is_leap y then 29 else 28)
      else if m = 4 \<or> m = 6 \<or> m = 9 \<or> m = 11 then 30
      else 31)"

definition mk_datetime :: "int \<Rightarrow> int \<Rightarrow> int \<Rightarrow> py_error + datetime" where
  "mk_datetime y m d =
     (if 1 \<le> y \<and> y \<le> 9999 \<and> 1 \<le> m \<and> m \<le> 12 \<and> 1 \<le> d \<and> d \<le> days_in_month y m
      then Inr \<lparr>dt_year = y, dt_month = m, dt_day = d\<rparr>
      else Inl ValueError)"

definition next_day :: "datetime \<Rightarrow> py_error + datetime" where
  "next_day t =
     (if dt_day t < days_in_month (dt_year t) (dt_month t)
      then Inr \<lparr>dt_year = dt_year t, dt_month = dt_month t, dt_day = dt_day t + 1\<rparr>
      else if dt_month t < 12
      then Inr \<lparr>dt_year = dt_year t, dt_month = dt_month t + 1, dt_day = 1\<rparr>
      else if dt_year t < 9999
      then Inr \<lparr>dt_year = dt_year t + 1, dt_month = 1, dt_day = 1\<rparr>
      else Inl OverflowError)"

definition prev_day :: "datetime \<Rightarrow> py_error + datetime" where
  "prev_day t =
     (if 1 < dt_day t
      then Inr \<lparr>dt_year = dt_year t, dt_month = dt_month t, dt_day = dt_day t - 1\<rparr>
      else if 1 < dt_month t
      then Inr \<lparr>dt_year = dt_year t, dt_month = dt_month t - 1,
                dt_day = days_in_month (dt_year t) (dt_month t - 1)\<rparr>
      else if 1 < dt_year t
      then Inr \<lparr>dt_year = dt_year t - 1, dt_month = 12, dt_day = 31\<rparr>
      else Inl OverflowError)"

text \<open>\<open>t + timedelta(days=n)\<close> and \<open>t - timedelta(days=n)\<close> for \<open>n\<close> from 0 on.\<close>

fun add_days :: "datetime \<Rightarrow> nat \<Rightarrow> py_error + datetime" where
  "add_days t 0 = Inr t"
| "add_days t (Suc n) = (case next_day t of Inl e \<Rightarrow> Inl e | Inr t' \<Rightarrow> add_days t' n)"

fun sub_days :: "datetime \<Rightarrow> nat \<Rightarrow> py_error + datetime" where
  "sub_days t 0 = Inr t"
| "sub_days t (Suc n) = (case prev_day t of Inl e \<Rightarrow> Inl e | Inr t' \<Rightarrow> sub_days t' n)"

text \<open>The order of two datetimes, as the store compares them in \<open>BETWEEN\<close>.\<close>

definition datetime_le :: "datetime \<Rightarrow> datetime \<Rightarrow> bool" where
  "datetime_le s t =
     (dt_year s < dt_year t
      \<or> (dt_year s = dt_year t
          \<and> (dt_month s < dt_month t \<or> (dt_month s = dt_month t \<and> dt_day s \<le> dt_day t))))"

text \<open>
  The head of \<open>get_recently_closed_companies\<close>: \<open>start_date\<close> and \<open>end_date\<close>, the latter
  through the intermediate value of 31 days after the first of the month.
\<close>

definition date_range :: "int \<Rightarrow> int \<Rightarrow> py_error + (datetime \<times> datetime)" where
  "date_range month year =
     (case (if month \<noteq> 1 then mk_datetime year (month - 1) 1 else mk_datetime (year - 1) 12 1) of
        Inl e \<Rightarrow> Inl e
      | Inr start_date \<Rightarrow>
          (case mk_datetime year month 1 of
             Inl e \<Rightarrow> Inl e
           | Inr first_day \<Rightarrow>
               (case add_days first_day 31 of
                  Inl e \<Rightarrow> Inl e
                | Inr end_date \<Rightarrow>
                    (case sub_days end_date (nat (dt_day end_date)) of
                       Inl e \<Rightarrow> Inl e
                     | Inr last_day \<Rightarrow>
                         (case mk_datetime year month (min 31 (dt_day last_day)) of
                            Inl e \<Rightarrow> Inl e
                          | Inr end_date' \<Rightarrow> Inr (start_date, end_date'))))))"

record store2 =
  companies2 :: "company list"
  identifiers2 :: "company_identifier list"
  conversations2 :: "datetime conversation list"

text \<open>The rows \<open>(id, name)\<close> of the companies whose close date is in the range.\<close>

definition get_recently_closed_companies :: "store2 \<Rightarrow> int \<Rightarrow> int \<Rightarrow> py_error + (int \<times> string) list" where
  "get_recently_closed_companies db month year =
     (case date_range month year of
        Inl e \<Rightarrow> Inl e
      | Inr (start_date, end_date) \<Rightarrow>
          Inr (map (\<lambda>c. (c_id c, c_name c))
                 (filter (\<lambda>c. case close_date c of
                                  None \<Rightarrow> False
                                | Some d \<Rightarrow> datetime_le start_date d \<and> datetime_le d end_date)
                    (companies2 db))))"

definition BONUSES :: "int \<Rightarrow> (int \<Rightarrow> int option) option" where
  "BONUSES = map_of
     [(3, map_of [(10, 80)]),
      (4, map_of [(11, 100), (3, 260)]),
      (5, map_of [(12, 600), (11, 400)]),
      (6, map_of [(12, 350)]),
      (7, map_of [(13, 200)]),
      (8, map_of [(15, 400)])]"

text \<open>\<open>BONUSES.get(month, {}).get(company_id, 0)\<close>.\<close>

definition bonus :: "int \<Rightarrow> int \<Rightarrow> int" where
  "bonus month cid =
     (case BONUSES month of
        None \<Rightarrow> 0
      | Some d \<Rightarrow> (case d cid of None \<Rightarrow> 0 | Some b \<Rightarrow> b))"

text \<open>The rows \<open>(company_id, account_identifier)\<close> of the first query.\<close>

definition account_mapping :: "store2 \<Rightarrow> int list \<Rightarrow> (int \<times> int) list" where
  "account_mapping db company_ids =
     map (\<lambda>ci. (company_id ci, account_identifier ci))
       (filter (\<lambda>ci. company_id ci \<in> set company_ids) (identifiers2 db))"

text \<open>The rows \<open>(account_id, SUM(total))\<close> of the second query, for a list of accounts.\<close>

definition successful_conversations :: "store2 \<Rightarrow> int list \<Rightarrow> int \<Rightarrow> int \<Rightarrow> (int \<times> int) list" where
  "successful_conversations db accounts month year =
     group_sum account_id total
       (filter (\<lambda>r. account_id r \<in> set accounts \<and> successful r
                    \<and> dt_month (date r) = month \<and> dt_year (date r) = year)
          (conversations2 db))"

text \<open>
  The two nested loops that fill the dictionary \<open>result\<close>, kept as the list of its items
  in insertion order: an assignment to a key that is present replaces the value in
  place, a new key goes to the end.
\<close>

definition map_conversations :: "int \<Rightarrow> (int \<times> int) list \<Rightarrow> (int \<times> int) list \<Rightarrow> (int \<times> int) list" where
  "map_conversations month mapping convs =
     fold (\<lambda>(cid, aid) result.
             fold (\<lambda>(account, tot) result.
                     if aid = account then AList.update cid (tot + bonus month cid) result
                     else result)
               convs result)
       mapping []"

text \<open>
  An empty list of companies returns the empty dictionary at once. The tuple of the
  second \<open>IN\<close> has no such guard: when no identifier row matches it is empty, the query
  text reads \<open>IN ()\<close>, and the store's driver raises \<open>ProgrammingError\<close>.
\<close>

definition get_successful_conversations_for_companies ::
    "store2 \<Rightarrow> int list \<Rightarrow> int \<Rightarrow> int \<Rightarrow> py_error + (int \<times> int) list" where
  "get_successful_conversations_for_companies db company_ids month year =
     (if company_ids = [] then Inr []
      else if account_mapping db company_ids = [] then Inl ProgrammingError
      else Inr (map_conversations month (account_mapping db company_ids)
                  (successful_conversations db (map snd (account_mapping db company_ids)) month year)))"

text \<open>
  The percentage that \<open>main\<close> computes from the dictionary (the quotient is exact here;
  Python rounds it to a float).
\<close>

definition percentage :: "(int \<times> int) list \<Rightarrow> rat" where
  "percentage convs =
     (let active_companies = map fst convs;
          successful_companies = map fst (filter (\<lambda>(cid, conversations). 1500 \<le> conversations) convs)
      in if active_companies \<noteq> []
         then (of_nat (length successful_companies) / of_nat (length active_companies)) * 100
         else 0)"

text \<open>One round of the loop of \<open>main\<close>; an exception of either call leaves the loop.\<close>

definition month_percentage :: "store2 \<Rightarrow> int \<Rightarrow> int \<Rightarrow> py_error + rat" where
  "month_percentage db month year =
     (case get_recently_closed_companies db month year of
        Inl e \<Rightarrow> Inl e
      | Inr companies \<Rightarrow>
          (case get_successful_conversations_for_companies db (map fst companies) month year of
             Inl e \<Rightarrow> Inl e
           | Inr convs \<Rightarrow> Inr (percentage convs)))"

text \<open>
  The words of the specification: the successful conversations of an account in the
  period, and the companies of a list with at least one matched row.
\<close>

definition matched :: "store2 \<Rightarrow> int \<Rightarrow> int \<Rightarrow> int \<Rightarrow> datetime conversation list" where
  "matched db month year aid =
     filter (\<lambda>r. account_id r = aid \<and> successful r
                  \<and> dt_month (date r) = month \<and> dt_year (date r) = year)
       (conversations2 db)"

definition active :: "store2 \<Rightarrow> int list \<Rightarrow> int \<Rightarrow> int \<Rightarrow> int set" where
  "active db company_ids month year =
     {c. c \<in> set company_ids
         \<and> (\<exists>ci \<in> set (identifiers2 db). company_id ci = c
               \<and> matched db month year (account_identifier ci) \<noteq> [])}"

text \<open>
  Shorthands for the statements: the total of one day, and the days of the rows that pass
  the threshold.
\<close>

abbreviation day_total :: "int conversation list \<Rightarrow> int \<Rightarrow> int \<Rightarrow> int" where
  "day_total convs a d \<equiv> sum_list (map total (filter (\<lambda>r. account_id r = a \<and> date r = d) convs))"

abbreviation crossing_days :: "int conversation list \<Rightarrow> int \<Rightarrow> int list" where
  "crossing_days convs a \<equiv>
     map (\<lambda>(a', d, s). d) (filter (\<lambda>(a', d, s). a' = a) (three_day_conversations convs))"

section \<open>Third script: the mock lookup\<close>

text \<open>
  C8. In the synthetic mode the lookup for cohort month 1 gives the published sequence
  292, 644, 621, 317, 649, 556, 328, 536 for the invoice months 1 to 8, in this order,
  and for every pair of a cohort month and an invoice month outside the table's valid
  range (the invoice month is not between 1 and the length of the cohort's sequence; an
  unknown cohort has the empty sequence) the lookup gives the absent value, not 0.
\<close>

theorem get_mock_revenue_table:
  "map (get_mock_revenue 1) [1, 2, 3, 4, 5, 6, 7, 8]
     = map Some [292, 644, 621, 317, 649, 556, 328, 536]
   \<and> (\<forall>c i. \<not> (1 \<le> i \<and> i \<le> int (length (case mock_data c of None \<Rightarrow> [] | Some xs \<Rightarrow> xs)))
        \<longrightarrow> get_mock_revenue c i = None)"
proof (intro conjI allI impI)
  show "map (get_mock_revenue 1) [1, 2, 3, 4, 5, 6, 7, 8]
          = map Some [292, 644, 621, 317, 649, 556, 328, 536]"
    by (simp add: get_mock_revenue_def mock_data_def)
next
  fix c i
  assume "\<not> (1 \<le> i \<and> i \<le> int (length (case mock_data c of None \<Rightarrow> [] | Some xs \<Rightarrow> xs)))"
  then show "get_mock_revenue c i = None"
    by (simp add: get_mock_revenue_def Let_def)
qed

theorem get_mock_revenue_table_witness:
  "\<not> (1 \<le> (8::int) \<and> (8::int) \<le> int (length (case mock_data 2 of None \<Rightarrow> [] | Some xs \<Rightarrow> xs)))
   \<and> get_mock_revenue 2 8 = None \<and> get_mock_revenue 9 1 = None \<and> get_mock_revenue 1 0 = None"
proof -
  have h: "\<not> (1 \<le> (8::int) \<and> (8::int) \<le> int (length (case mock_data 2 of None \<Rightarrow> [] | Some xs \<Rightarrow> xs)))"
    by (simp add: mock_data_def)
  have a: "get_mock_revenue 2 8 = None"
    using get_mock_revenue_table h by blast
  have b: "get_mock_revenue 9 1 = None" "get_mock_revenue 1 0 = None"
    by (simp_all add: get_mock_revenue_def mock_data_def)
  from h a b show ?thesis by blast
qed

section \<open>Third script: the cohort matrix\<close>

lemma group_sum_key: "(k, v) \<in> set (group_sum key val rows) \<Longrightarrow> k \<in> key ` set rows"
  by (auto simp: group_sum_def)

lemma Invoices_month_range:
  assumes "((c, m), t) \<in> set (InvoicesForCompaniesClosedInMonth db month)"
  shows "month \<le> m \<and> m \<le> 8"
proof -
  from group_sum_key [OF assms [unfolded InvoicesForCompaniesClosedInMonth_def]]
  show ?thesis by auto
qed

lemma fetch_monthly_data_row:
  assumes "r \<in> set (fetch_monthly_data db month)"
  shows "cohort r = str month \<and> month \<le> invoice_month r \<and> invoice_month r \<le> 8 \<and> revenue r \<noteq> None"
proof -
  from assms obtain m v where
    mv: "(m, v) \<in> set (group_sum (\<lambda>((c, m), t). m) snd (InvoicesForCompaniesClosedInMonth db month))"
    and r: "r = \<lparr>cohort = str month, invoice_month = m, revenue = Some v\<rparr>"
    by (auto simp: fetch_monthly_data_def)
  from group_sum_key [OF mv] obtain c t where
    "((c, m), t) \<in> set (InvoicesForCompaniesClosedInMonth db month)"
    by auto
  then have "month \<le> m \<and> m \<le> 8"
    by (rule Invoices_month_range)
  with r show ?thesis by simp
qed

lemma get_mock_revenue_present:
  assumes "1 \<le> m" "m \<le> 8"
  shows "get_mock_revenue m i \<noteq> None \<longleftrightarrow> 1 \<le> i \<and> i \<le> 9 - m"
proof -
  from assms have "m = 1 \<or> m = 2 \<or> m = 3 \<or> m = 4 \<or> m = 5 \<or> m = 6 \<or> m = 7 \<or> m = 8"
    by arith
  then show ?thesis
    by (elim disjE) (simp_all add: get_mock_revenue_def mock_data_def)
qed

lemma set_generate_mock_data:
  "set generate_mock_data =
     (\<Union>m\<in>{1..8}. (\<lambda>i. \<lparr>cohort = ''2023-'' @ fmt_02d m, invoice_month = i, revenue = get_mock_revenue m i\<rparr>) ` {1..8})"
  unfolding generate_mock_data_def set_concat set_map set_upto image_image ..

lemma generate_mock_data_rows:
  "r \<in> set generate_mock_data \<longleftrightarrow>
     (\<exists>m i. 1 \<le> m \<and> m \<le> 8 \<and> 1 \<le> i \<and> i \<le> 8
        \<and> r = \<lparr>cohort = ''2023-'' @ fmt_02d m, invoice_month = i, revenue = get_mock_revenue m i\<rparr>)"
  unfolding set_generate_mock_data UN_iff image_iff Bex_def atLeastAtMost_iff
  by (simp only: conj_assoc ex_simps)

text \<open>
  C5, as the code has it. The claim asks that no entry of the cohort matrix stands at a
  period before its cohort's month, on the live-query path and on the synthetic one. On
  the synthetic path the cohort of February 2023 has the value 754 at invoice month 1.
\<close>

theorem mock_entry_before_cohort_month:
  "\<lparr>cohort = ''2023-02'', invoice_month = 1, revenue = Some 754\<rparr> \<in> set generate_mock_data
   \<and> ''2023-02'' = ''2023-'' @ fmt_02d 2 \<and> (1::int) < 2"
proof -
  have f: "fmt_02d 2 = ''02''"
    by (simp add: fmt_02d_def str_nat.simps [of 2] digit_def)
  have g: "get_mock_revenue 2 1 = Some 754"
    by (simp add: get_mock_revenue_def mock_data_def)
  have "\<lparr>cohort = ''2023-'' @ fmt_02d 2, invoice_month = 1, revenue = get_mock_revenue 2 1\<rparr>
          \<in> set generate_mock_data"
    unfolding generate_mock_data_rows by (intro exI [of _ 2] exI [of _ 1]) simp
  with f g show ?thesis by simp
qed

text \<open>
  C5, amended. On the live-query path every row of the cohort queried for \<open>month\<close> carries
  that cohort and an invoice month from \<open>month\<close> to 8, with a value. On the synthetic path
  the rows are those of the cohorts 1 to 8 at the invoice months 1 to 8, and the row of
  cohort \<open>m\<close> at invoice month \<open>i\<close> has a value exactly when \<open>i\<close> is at most \<open>9 - m\<close>: the
  sequence of a cohort is laid out from invoice month 1 on, whatever the cohort's month.
\<close>

theorem cohort_matrix_periods:
  "(\<forall>r \<in> set (fetch_monthly_data db month).
      cohort r = str month \<and> month \<le> invoice_month r \<and> invoice_month r \<le> 8 \<and> revenue r \<noteq> None)
   \<and> (\<forall>r. r \<in> set generate_mock_data \<longleftrightarrow>
        (\<exists>m i. 1 \<le> m \<and> m \<le> 8 \<and> 1 \<le> i \<and> i \<le> 8
           \<and> r = \<lparr>cohort = ''2023-'' @ fmt_02d m, invoice_month = i, revenue = get_mock_revenue m i\<rparr>))
   \<and> (\<forall>m i. 1 \<le> m \<and> m \<le> 8 \<longrightarrow> (get_mock_revenue m i \<noteq> None \<longleftrightarrow> 1 \<le> i \<and> i \<le> 9 - m))"
proof -
  have live: "\<forall>r \<in> set (fetch_monthly_data db month).
      cohort r = str month \<and> month \<le> invoice_month r \<and> invoice_month r \<le> 8 \<and> revenue r \<noteq> None"
    by (intro ballI) (rule fetch_monthly_data_row)
  have rows: "\<forall>r. r \<in> set generate_mock_data \<longleftrightarrow>
        (\<exists>m i. 1 \<le> m \<and> m \<le> 8 \<and> 1 \<le> i \<and> i \<le> 8
           \<and> r = \<lparr>cohort = ''2023-'' @ fmt_02d m, invoice_month = i, revenue = get_mock_revenue m i\<rparr>)"
    by (intro allI) (rule generate_mock_data_rows)
  have present: "\<forall>m i. 1 \<le> m \<and> m \<le> 8 \<longrightarrow> (get_mock_revenue m i \<noteq> None \<longleftrightarrow> 1 \<le> i \<and> i \<le> 9 - m)"
    using get_mock_revenue_present by blast
  from live rows present show ?thesis by (intro conjI)
qed

theorem cohort_matrix_periods_witness:
  "fetch_monthly_data
     \<lparr>companies3 = [\<lparr>c_id = 1, c_name = ''a'', associated_partner = None,
                       close_date = Some \<lparr>dt_year = 2023, dt_month = 3, dt_day = 15\<rparr>\<rparr>],
      identifiers3 = [\<lparr>company_id = 1, account_identifier = 10, stripe_company_ids = 100\<rparr>],
      invoices3 = [\<lparr>si_company_id = 100, sent_date = \<lparr>dt_year = 2023, dt_month = 4, dt_day = 2\<rparr>, amount = 50\<rparr>,
                   \<lparr>si_company_id = 100, sent_date = \<lparr>dt_year = 2023, dt_month = 2, dt_day = 1\<rparr>, amount = 70\<rparr>]\<rparr> 3
     = [\<lparr>cohort = ''3'', invoice_month = 4, revenue = Some 50\<rparr>]
   \<and> (3::int) \<le> 4 \<and> (4::int) \<le> 8
   \<and> (1::int) \<le> 2 \<and> (2::int) \<le> 8 \<and> get_mock_revenue 2 8 = None \<and> get_mock_revenue 2 7 = Some 95"
proof -
  let ?db = "\<lparr>companies3 = [\<lparr>c_id = 1, c_name = ''a'', associated_partner = None,
                       close_date = Some \<lparr>dt_year = 2023, dt_month = 3, dt_day = 15\<rparr>\<rparr>],
      identifiers3 = [\<lparr>company_id = 1, account_identifier = 10, stripe_company_ids = 100\<rparr>],
      invoices3 = [\<lparr>si_company_id = 100, sent_date = \<lparr>dt_year = 2023, dt_month = 4, dt_day = 2\<rparr>, amount = 50\<rparr>,
                   \<lparr>si_company_id = 100, sent_date = \<lparr>dt_year = 2023, dt_month = 2, dt_day = 1\<rparr>, amount = 70\<rparr>]\<rparr>"
  let ?r = "\<lparr>cohort = ''3'', invoice_month = 4, revenue = Some 50\<rparr>"
  have rows: "fetch_monthly_data ?db 3 = [?r]"
    by (simp add: fetch_monthly_data_def InvoicesForCompaniesClosedInMonth_def
        StripeIdsForCompaniesClosedInMonth_def CompaniesClosedInMonth_def group_sum_def
        str_def str_nat.simps [of 3] digit_def)
  then have mem: "?r \<in> set (fetch_monthly_data ?db 3)"
    by simp
  have m: "(1::int) \<le> 2 \<and> (2::int) \<le> 8"
    by simp
  from cohort_matrix_periods [of ?db 3] mem
  have live: "(3::int) \<le> invoice_month ?r \<and> invoice_month ?r \<le> 8"
    by blast
  from cohort_matrix_periods [of ?db 3] m
  have "get_mock_revenue 2 8 \<noteq> None \<longleftrightarrow> (1::int) \<le> 8 \<and> (8::int) \<le> 9 - 2"
    and "get_mock_revenue 2 7 \<noteq> None \<longleftrightarrow> (1::int) \<le> 7 \<and> (7::int) \<le> 9 - 2"
    by blast+
  then have mock: "get_mock_revenue 2 8 = None" "get_mock_revenue 2 7 \<noteq> None"
    by simp_all
  have v: "get_mock_revenue 2 7 = Some 95"
    by (simp add: get_mock_revenue_def mock_data_def)
  from rows live mock v show ?thesis by simp
qed

section \<open>First script: the activation date\<close>

lemma filter_eq_distinct:
  "distinct xs \<Longrightarrow> filter (\<lambda>x. x = k) xs = (if k \<in> set xs then [k] else [])"
  by (induction xs) auto

lemma group_sum_lookup:
  "filter (\<lambda>g. fst g = k) (group_sum key val rows) =
     (if k \<in> key ` set rows then [(k, sum_list (map val (filter (\<lambda>r. key r = k) rows)))] else [])"
proof -
  have "filter (\<lambda>g. fst g = k) (group_sum key val rows) =
          map (\<lambda>k. (k, sum_list (map val (filter (\<lambda>r. key r = k) rows))))
            (filter (\<lambda>x. x = k) (remdups (map key rows)))"
    by (simp add: group_sum_def filter_map comp_def)
  then show ?thesis
    by (simp add: filter_eq_distinct)
qed

lemma daily_lookup:
  "filter (\<lambda>g. fst g = (a, d)) (daily_conversations convs) =
     (if has_events convs a d then [((a, d), day_total convs a d)] else [])"
proof -
  have "(\<lambda>r. (account_id r, date r) = (a, d)) = (\<lambda>r. account_id r = a \<and> date r = d)"
    by auto
  then show ?thesis
    by (simp add: daily_conversations_def group_sum_lookup has_events_def)
qed

lemma day_total_no_events: "\<not> has_events convs a d \<Longrightarrow> day_total convs a d = 0"
proof -
  assume "\<not> has_events convs a d"
  then have "filter (\<lambda>r. account_id r = a \<and> date r = d) convs = []"
    by (auto simp: has_events_def filter_empty_conv)
  then show ?thesis by simp
qed

lemma left_join_unique:
  assumes "\<And>x. x \<in> set xs \<Longrightarrow> filter (on x) ys = (case g x of None \<Rightarrow> [] | Some y \<Rightarrow> [y])"
  shows "left_join xs ys on = map (\<lambda>x. (x, g x)) xs"
  using assms unfolding left_join_def
  by (induction xs) (auto split: option.splits)

lemma window_sum_days:
  "window_sum convs a D = day_total convs a D + day_total convs a (D - 1) + day_total convs a (D - 2)"
  unfolding window_sum_def by (induction convs) auto

lemma daily_row: "((a, d), t) \<in> set (daily_conversations convs) \<longleftrightarrow> has_events convs a d \<and> t = day_total convs a d"
proof -
  have "((a, d), t) \<in> set (daily_conversations convs)
          \<longleftrightarrow> ((a, d), t) \<in> set (filter (\<lambda>g. fst g = (a, d)) (daily_conversations convs))"
    by simp
  then show ?thesis
    unfolding daily_lookup by auto
qed

lemma daily_lookup_on:
  "filter (\<lambda>g. a = fst (fst g) \<and> snd (fst g) = d) (daily_conversations convs) =
     (if has_events convs a d then [((a, d), day_total convs a d)] else [])"
proof -
  have "(\<lambda>g::(int \<times> int) \<times> int. a = fst (fst g) \<and> snd (fst g) = d) = (\<lambda>g. fst g = (a, d))"
    by (auto simp: fun_eq_iff)
  then show ?thesis
    by (simp add: daily_lookup)
qed

lemma coalesce_lookup:
  "coalesce (map_option snd (if has_events convs a d then Some ((a, d), day_total convs a d) else None)) 0
     = day_total convs a d"
  by (simp add: coalesce_def day_total_no_events)

lemma daily_snd:
  "x \<in> set (daily_conversations convs) \<Longrightarrow> snd x = day_total convs (fst (fst x)) (snd (fst x))"
  using daily_row [of "fst (fst x)" "snd (fst x)" "snd x" convs] by simp

lemma three_day_eq:
  "three_day_conversations convs =
     filter (\<lambda>(a, d, t). 350 \<le> t)
       (map (\<lambda>x. (fst (fst x), snd (fst x), window_sum convs (fst (fst x)) (snd (fst x))))
          (daily_conversations convs))"
proof -
  let ?dc = "daily_conversations convs"
  let ?g = "\<lambda>k (x::(int \<times> int) \<times> int).
     if has_events convs (fst (fst x)) (snd (fst x) - k)
     then Some ((fst (fst x), snd (fst x) - k), day_total convs (fst (fst x)) (snd (fst x) - k))
     else None"
  let ?F = "\<lambda>x. (fst (fst x), snd (fst x),
     snd x + coalesce (map_option snd (?g 1 x)) 0 + coalesce (map_option snd (?g 2 x)) 0)"
  have j1: "left_join ?dc ?dc (\<lambda>dc1 dc2. fst (fst dc1) = fst (fst dc2) \<and> snd (fst dc2) = snd (fst dc1) - 1)
              = map (\<lambda>x. (x, ?g 1 x)) ?dc"
    by (rule left_join_unique) (simp add: daily_lookup_on)
  have j2: "left_join (map (\<lambda>x. (x, ?g 1 x)) ?dc) ?dc
              (\<lambda>(dc1, dc2) dc3. fst (fst dc1) = fst (fst dc3) \<and> snd (fst dc3) = snd (fst dc1) - 2)
              = map (\<lambda>y. (y, ?g 2 (fst y))) (map (\<lambda>x. (x, ?g 1 x)) ?dc)"
    by (rule left_join_unique) (auto simp: daily_lookup_on)
  have "three_day_conversations convs = filter (\<lambda>(a, d, t). 350 \<le> t) (map ?F ?dc)"
    unfolding three_day_conversations_def Let_def j1 j2 by (simp add: comp_def cong: if_cong)
  moreover have "map ?F ?dc
      = map (\<lambda>x. (fst (fst x), snd (fst x), window_sum convs (fst (fst x)) (snd (fst x)))) ?dc"
    by (rule map_cong [OF refl]) (simp only: coalesce_lookup daily_snd window_sum_days)
  ultimately show ?thesis by (simp only:)
qed

lemma three_day_mem:
  "(a, d, t) \<in> set (three_day_conversations convs)
     \<longleftrightarrow> has_events convs a d \<and> t = window_sum convs a d \<and> 350 \<le> t"
proof
  assume "(a, d, t) \<in> set (three_day_conversations convs)"
  then obtain x where x: "x \<in> set (daily_conversations convs)"
    and eq: "(a, d, t) = (fst (fst x), snd (fst x), window_sum convs (fst (fst x)) (snd (fst x)))"
    and t: "350 \<le> t"
    unfolding three_day_eq by auto
  obtain a' d' t' where "x = ((a', d'), t')"
    by (metis surj_pair)
  with x eq t show "has_events convs a d \<and> t = window_sum convs a d \<and> 350 \<le> t"
    by (simp add: daily_row)
next
  assume h: "has_events convs a d \<and> t = window_sum convs a d \<and> 350 \<le> t"
  then have "((a, d), day_total convs a d) \<in> set (daily_conversations convs)"
    by (simp add: daily_row)
  then have "(a, d, window_sum convs a d)
               \<in> set (map (\<lambda>x. (fst (fst x), snd (fst x), window_sum convs (fst (fst x)) (snd (fst x))))
                      (daily_conversations convs))"
    by (force simp: image_iff)
  with h show "(a, d, t) \<in> set (three_day_conversations convs)"
    unfolding three_day_eq by simp
qed

lemma sql_min_None: "sql_min xs = None \<longleftrightarrow> xs = []"
  by (simp add: sql_min_def split: list.splits)

lemma sql_min_Some: "sql_min xs = Some m \<longleftrightarrow> m \<in> set xs \<and> (\<forall>x \<in> set xs. m \<le> x)"
proof (cases xs)
  case Nil
  then show ?thesis by (simp add: sql_min_def)
next
  case (Cons y ys)
  have "sql_min xs = Some (Min (set xs))"
    unfolding Cons sql_min_def list.case Min.set_eq_fold ..
  moreover have "Min (set xs) = m \<longleftrightarrow> m \<in> set xs \<and> (\<forall>x \<in> set xs. m \<le> x)"
  proof -
    have ne: "finite (set xs)" "set xs \<noteq> {}"
      using Cons by simp_all
    show ?thesis
      using Min_in [OF ne] Min_le [OF ne(1)] Min_eqI [OF ne(1), of m] by blast
  qed
  ultimately show ?thesis by simp
qed

lemma crossing_days_set:
  "D \<in> set (crossing_days convs a) \<longleftrightarrow> has_events convs a D \<and> 350 \<le> window_sum convs a D"
  using three_day_mem [of a D _ convs] by (auto simp: image_iff)

lemma first_activation_lookup:
  "filter (\<lambda>f. c = fst f) (first_activation convs) =
     (if c \<in> fst ` set (three_day_conversations convs) then [(c, sql_min (crossing_days convs c))] else [])"
proof -
  have "filter (\<lambda>f. c = fst f) (first_activation convs) =
          map (\<lambda>a. (a, sql_min (crossing_days convs a)))
            (filter (\<lambda>x. x = c) (remdups (map fst (three_day_conversations convs))))"
    by (simp add: first_activation_def Let_def filter_map comp_def eq_commute)
  then show ?thesis
    by (simp add: filter_eq_distinct)
qed

lemma crossing_days_absent:
  "c \<notin> fst ` set (three_day_conversations convs) \<Longrightarrow> crossing_days convs c = []"
  by (auto simp: filter_empty_conv image_iff)

lemma fetch_companies_from_db_eq:
  "fetch_companies_from_db companies convs =
     map (\<lambda>c. \<lparr>df_company_id = c_id c, df_company_name = c_name c,
                 activation_date = sql_min (crossing_days convs (c_id c))\<rparr>)
       (filter (\<lambda>c. case associated_partner c of None \<Rightarrow> False | Some p \<Rightarrow> p \<noteq> []) companies)"
proof -
  let ?g = "\<lambda>c. if c_id c \<in> fst ` set (three_day_conversations convs)
                  then Some (c_id c, sql_min (crossing_days convs (c_id c))) else None"
  have j: "left_join companies (first_activation convs) (\<lambda>c f. c_id c = fst f)
             = map (\<lambda>c. (c, ?g c)) companies"
    by (rule left_join_unique) (simp add: first_activation_lookup)
  have act: "(case ?g c of None \<Rightarrow> None | Some (a, d) \<Rightarrow> d) = sql_min (crossing_days convs (c_id c))"
    for c :: company
    by (simp add: crossing_days_absent sql_min_def)
  show ?thesis
    unfolding fetch_companies_from_db_def j
    by (simp add: filter_map comp_def act)
qed

lemma day_total_nonneg: "\<forall>c \<in> set convs. 0 \<le> total c \<Longrightarrow> 0 \<le> day_total convs a d"
  by (rule sum_list_nonneg) auto

lemma earlier_event_day:
  assumes nonneg: "\<forall>c \<in> set convs. 0 \<le> total c"
    and cross: "350 \<le> window_sum convs a D'"
  shows "\<exists>D. D \<le> D' \<and> has_events convs a D \<and> 350 \<le> window_sum convs a D"
proof -
  note dt = day_total_nonneg [OF nonneg, of a]
  show ?thesis
  proof (cases "has_events convs a D'")
    case True
    with cross show ?thesis by blast
  next
    case no0: False
    then have z0: "day_total convs a D' = 0"
      by (rule day_total_no_events)
    show ?thesis
    proof (cases "has_events convs a (D' - 1)")
      case True
      have "window_sum convs a D' \<le> window_sum convs a (D' - 1)"
        using dt [of "D' - 3"] z0 by (simp add: window_sum_days)
      with cross True show ?thesis
        by (intro exI [of _ "D' - 1"]) simp
    next
      case False
      then have z1: "day_total convs a (D' - 1) = 0"
        by (rule day_total_no_events)
      have w: "window_sum convs a D' = day_total convs a (D' - 2)"
        using z0 z1 by (simp add: window_sum_days)
      with cross have ev: "has_events convs a (D' - 2)"
        using day_total_no_events [of convs a "D' - 2"] by fastforce
      have "window_sum convs a D' \<le> window_sum convs a (D' - 2)"
        using dt [of "D' - 3"] dt [of "D' - 4"] w by (simp add: window_sum_days [of convs a "D' - 2"])
      with cross ev show ?thesis
        by (intro exI [of _ "D' - 2"]) simp
    qed
  qed
qed

text \<open>
  C1. For every row that \<open>fetch_companies_from_db\<close> returns, the activation date is \<open>D\<close>
  exactly when the account has events on \<open>D\<close>, the totals of \<open>D\<close> and the two days before
  it (a day without events adding 0) sum to at least 350, and no day with events and
  such a sum is earlier; a sum of exactly 350 counts. The date is absent exactly when no
  day with events reaches 350. The first common table expression has a row only for a
  day with events; when no total is negative, the reported date is also the earliest of
  all days, with or without events, whose trailing three-day sum is at least 350.
\<close>

theorem activation_date_earliest_crossing:
  assumes "r \<in> set (fetch_companies_from_db companies convs)"
  shows "(activation_date r = Some D \<longleftrightarrow>
            has_events convs (df_company_id r) D \<and> 350 \<le> window_sum convs (df_company_id r) D
            \<and> (\<forall>D'. has_events convs (df_company_id r) D' \<and> 350 \<le> window_sum convs (df_company_id r) D'
                  \<longrightarrow> D \<le> D'))
         \<and> (activation_date r = None \<longleftrightarrow>
            (\<forall>D'. has_events convs (df_company_id r) D' \<longrightarrow> window_sum convs (df_company_id r) D' < 350))
         \<and> ((\<forall>c \<in> set convs. 0 \<le> total c) \<and> activation_date r = Some D \<longrightarrow>
            (\<forall>D'. 350 \<le> window_sum convs (df_company_id r) D' \<longrightarrow> D \<le> D'))"
proof -
  let ?a = "df_company_id r"
  from assms have act: "activation_date r = sql_min (crossing_days convs ?a)"
    unfolding fetch_companies_from_db_eq by auto
  have some: "activation_date r = Some D \<longleftrightarrow>
            has_events convs ?a D \<and> 350 \<le> window_sum convs ?a D
            \<and> (\<forall>D'. has_events convs ?a D' \<and> 350 \<le> window_sum convs ?a D' \<longrightarrow> D \<le> D')" for D
    unfolding act sql_min_Some using crossing_days_set [where convs = convs and a = ?a] by blast
  have none: "activation_date r = None \<longleftrightarrow>
            (\<forall>D'. has_events convs ?a D' \<longrightarrow> window_sum convs ?a D' < 350)"
  proof -
    have "crossing_days convs ?a = [] \<longleftrightarrow> (\<forall>D'. D' \<notin> set (crossing_days convs ?a))"
      by (cases "crossing_days convs ?a") auto
    then show ?thesis
      unfolding act sql_min_None crossing_days_set by (auto simp: not_le)
  qed
  have all: "D \<le> D'"
    if nonneg: "\<forall>c \<in> set convs. 0 \<le> total c" and D: "activation_date r = Some D"
      and D': "350 \<le> window_sum convs ?a D'" for D'
  proof -
    from earlier_event_day [OF nonneg D'] obtain E where
      E: "E \<le> D'" "has_events convs ?a E" "350 \<le> window_sum convs ?a E"
      by blast
    from D some [of D] E(2,3) have "D \<le> E"
      by blast
    with E(1) show ?thesis by simp
  qed
  from some [of D] none all show ?thesis by blast
qed

lemmas activation_defs =
  fetch_companies_from_db_def first_activation_def three_day_conversations_def
  daily_conversations_def group_sum_def left_join_def coalesce_def sql_min_def Let_def

theorem activation_date_earliest_crossing_witness:
  "\<lparr>df_company_id = 1, df_company_name = ''E'', activation_date = Some 3\<rparr>
     \<in> set (fetch_companies_from_db
          [\<lparr>c_id = 1, c_name = ''E'', associated_partner = Some ''p'', close_date = None\<rparr>]
          [\<lparr>account_id = 1, date = 1, total = 100, successful = True\<rparr>,
           \<lparr>account_id = 1, date = 2, total = 150, successful = False\<rparr>,
           \<lparr>account_id = 1, date = 3, total = 100, successful = True\<rparr>,
           \<lparr>account_id = 1, date = 5, total = 400, successful = True\<rparr>])
   \<and> has_events
          [\<lparr>account_id = 1, date = 1, total = 100, successful = True\<rparr>,
           \<lparr>account_id = 1, date = 2, total = 150, successful = False\<rparr>,
           \<lparr>account_id = 1, date = 3, total = 100, successful = True\<rparr>,
           \<lparr>account_id = 1, date = 5, total = 400, successful = True\<rparr>] 1 3
   \<and> window_sum
          [\<lparr>account_id = 1, date = 1, total = 100, successful = True\<rparr>,
           \<lparr>account_id = 1, date = 2, total = 150, successful = False\<rparr>,
           \<lparr>account_id = 1, date = 3, total = 100, successful = True\<rparr>,
           \<lparr>account_id = 1, date = 5, total = 400, successful = True\<rparr>] 1 3 = 350
   \<and> (3::int) \<le> 5"
proof -
  let ?convs = "[\<lparr>account_id = 1, date = 1, total = 100, successful = True\<rparr>,
           \<lparr>account_id = 1, date = 2, total = 150, successful = False\<rparr>,
           \<lparr>account_id = 1, date = 3, total = 100, successful = True\<rparr>,
           \<lparr>account_id = 1, date = 5, total = 400, successful = True\<rparr>] :: int conversation list"
  let ?r = "\<lparr>df_company_id = 1, df_company_name = ''E'', activation_date = Some 3\<rparr>"
  let ?cs = "[\<lparr>c_id = 1, c_name = ''E'', associated_partner = Some ''p'', close_date = None\<rparr>]"
  have mem: "?r \<in> set (fetch_companies_from_db ?cs ?convs)"
    by (simp add: activation_defs)
  have nonneg: "\<forall>c \<in> set ?convs. 0 \<le> total c"
    by simp
  have w3: "window_sum ?convs 1 3 = 350" and w5: "350 \<le> window_sum ?convs 1 5"
    by (simp_all add: window_sum_def)
  have act: "activation_date ?r = Some 3"
    by simp
  from activation_date_earliest_crossing [OF mem, of 3] act
  have ev: "has_events ?convs 1 3 \<and> 350 \<le> window_sum ?convs 1 3"
    by simp
  from activation_date_earliest_crossing [OF mem, of 3] nonneg act w5
  have le: "(3::int) \<le> 5"
    by (simp del: set_simps)
  from mem ev w3 le show ?thesis by blast
qed

section \<open>First script: the scenario of four days\<close>

text \<open>
  C7, as the code has it. The claim gives day 3 as the crossing date of an entity with
  totals of 100 on each of the days 1 to 4. The query returns no such row.
\<close>

theorem four_days_of_100_crossing_day_3_refuted:
  "\<lparr>df_company_id = 1, df_company_name = ''E'', activation_date = Some 3\<rparr>
     \<notin> set (fetch_companies_from_db
          [\<lparr>c_id = 1, c_name = ''E'', associated_partner = Some ''p'', close_date = None\<rparr>]
          [\<lparr>account_id = 1, date = 1, total = 100, successful = True\<rparr>,
           \<lparr>account_id = 1, date = 2, total = 100, successful = True\<rparr>,
           \<lparr>account_id = 1, date = 3, total = 100, successful = True\<rparr>,
           \<lparr>account_id = 1, date = 4, total = 100, successful = True\<rparr>])"
  by (simp add: activation_defs)

text \<open>
  C7, amended. For an entity with totals of 100 on each of the days 1 to 4, the trailing
  three-day sums are 100, 200, 300 and 300, none reaches 350, and the activation date
  that is reported is absent.
\<close>

theorem four_days_of_100_no_crossing:
  "fetch_companies_from_db
          [\<lparr>c_id = 1, c_name = ''E'', associated_partner = Some ''p'', close_date = None\<rparr>]
          [\<lparr>account_id = 1, date = 1, total = 100, successful = True\<rparr>,
           \<lparr>account_id = 1, date = 2, total = 100, successful = True\<rparr>,
           \<lparr>account_id = 1, date = 3, total = 100, successful = True\<rparr>,
           \<lparr>account_id = 1, date = 4, total = 100, successful = True\<rparr>]
     = [\<lparr>df_company_id = 1, df_company_name = ''E'', activation_date = None\<rparr>]
   \<and> map (window_sum
          [\<lparr>account_id = 1, date = 1, total = 100, successful = True\<rparr>,
           \<lparr>account_id = 1, date = 2, total = 100, successful = True\<rparr>,
           \<lparr>account_id = 1, date = 3, total = 100, successful = True\<rparr>,
           \<lparr>account_id = 1, date = 4, total = 100, successful = True\<rparr>] 1) [1, 2, 3, 4]
     = [100, 200, 300, 300]"
  by (simp add: activation_defs window_sum_def)

section \<open>First script: the second pass\<close>

lemma fetch_rows_Some:
  "fetch_rows convs idx comps = Some res \<Longrightarrow>
     length res = length comps
     \<and> (\<forall>i < length comps. idx + i < length adjust
           \<and> (\<exists>a. activation_date (comps ! i) = Some a
           \<and> res ! i = \<lparr>success_date = fst (success_query convs (df_company_id (comps ! i)) a (a + 60) (adjust ! (idx + i))),
                        cum_total = snd (success_query convs (df_company_id (comps ! i)) a (a + 60) (adjust ! (idx + i))),
                        sd_company_id = df_company_id (comps ! i)\<rparr>))"
proof (induction comps arbitrary: idx res)
  case Nil
  then show ?case by simp
next
  case (Cons row rest)
  from Cons.prems obtain a where a: "activation_date row = Some a"
    by (cases "activation_date row") simp_all
  from Cons.prems a have idx: "idx < length adjust"
    by (simp split: if_splits)
  obtain sd ct where q: "success_query convs (df_company_id row) a (a + 60) (adjust ! idx) = (sd, ct)"
    by (cases "success_query convs (df_company_id row) a (a + 60) (adjust ! idx)")
  from Cons.prems a idx q obtain rs where rs: "fetch_rows convs (Suc idx) rest = Some rs"
    and res: "res = \<lparr>success_date = sd, cum_total = ct, sd_company_id = df_company_id row\<rparr> # rs"
    by (auto split: option.splits)
  note ih = Cons.IH [OF rs]
  have len: "length res = length (row # rest)"
    using ih res by simp
  have "idx + i < length adjust
           \<and> (\<exists>a. activation_date ((row # rest) ! i) = Some a
           \<and> res ! i = \<lparr>success_date = fst (success_query convs (df_company_id ((row # rest) ! i)) a (a + 60) (adjust ! (idx + i))),
                        cum_total = snd (success_query convs (df_company_id ((row # rest) ! i)) a (a + 60) (adjust ! (idx + i))),
                        sd_company_id = df_company_id ((row # rest) ! i)\<rparr>)"
    if i: "i < length (row # rest)" for i
  proof (cases i)
    case 0
    with a q res idx show ?thesis by simp
  next
    case (Suc j)
    with i ih res show ?thesis by simp
  qed
  with len show ?case by blast
qed

lemma fetch_rows_None:
  assumes "length adjust < idx + length comps" and "comps \<noteq> []"
  shows "fetch_rows convs idx comps = None"
proof (rule ccontr)
  assume "fetch_rows convs idx comps \<noteq> None"
  then obtain res where "fetch_rows convs idx comps = Some res"
    by auto
  from fetch_rows_Some [OF this] have "\<forall>i < length comps. idx + i < length adjust"
    by blast
  moreover from assms(2) have "length comps - 1 < length comps"
    by (cases comps) simp_all
  ultimately have "idx + (length comps - 1) < length adjust"
    by blast
  with assms show False
    by simp
qed


lemma fetch_successful_conversations_Some:
  "fetch_successful_conversations comps convs = Some res \<longleftrightarrow> fetch_rows convs 0 comps = Some res \<and> res \<noteq> []"
  by (auto simp: fetch_successful_conversations_def split: option.splits list.splits)

lemma length_running: "length (running acc rows) = length rows"
  by (induction rows arbitrary: acc) simp_all

lemma running_nth:
  "k < length rows \<Longrightarrow>
     running acc rows ! k = (date (rows ! k), acc + sum_list (map total (take (Suc k) rows)))"
proof (induction rows arbitrary: acc k)
  case Nil
  then show ?case by simp
next
  case (Cons r rs)
  show ?case
  proof (cases k)
    case 0
    then show ?thesis by simp
  next
    case (Suc j)
    with Cons.prems have "j < length rs" by simp
    from Cons.IH [OF this, of "acc + total r"] Suc show ?thesis
      by simp
  qed
qed

lemma horizon_rows_sorted: "sorted (map date (horizon_rows convs cid a e))"
  by (simp add: horizon_rows_def)

lemma horizon_rows_set:
  "r \<in> set (horizon_rows convs cid a e) \<longleftrightarrow>
     r \<in> set convs \<and> account_id r = cid \<and> successful r \<and> a \<le> date r \<and> date r \<le> e"
  by (auto simp: horizon_rows_def)

lemma crossing_rows_set:
  "set (filter (\<lambda>(d, c). 500 \<le> c) (CumulativeConversations convs cid a e)) =
     {(date (horizon_rows convs cid a e ! k),
       sum_list (map total (take (Suc k) (horizon_rows convs cid a e)))) | k.
        k < length (horizon_rows convs cid a e)
        \<and> 500 \<le> sum_list (map total (take (Suc k) (horizon_rows convs cid a e)))}"
  (is "set (filter ?P ?cs) = ?R")
proof -
  let ?rows = "horizon_rows convs cid a e"
  have cs: "?cs = running 0 ?rows"
    by (simp add: CumulativeConversations_def)
  have "x \<in> set (filter ?P ?cs) \<longleftrightarrow> x \<in> ?R" for x
  proof
    assume "x \<in> set (filter ?P ?cs)"
    then have x: "x \<in> set ?cs" "?P x"
      by simp_all
    then obtain k where k: "k < length ?cs" "?cs ! k = x"
      by (auto simp: in_set_conv_nth)
    then have "k < length ?rows"
      by (simp add: cs length_running)
    with k x(2) show "x \<in> ?R"
      unfolding cs by (auto simp: running_nth)
  next
    assume "x \<in> ?R"
    then obtain k where k: "k < length ?rows"
      "x = (date (?rows ! k), sum_list (map total (take (Suc k) ?rows)))"
      "500 \<le> sum_list (map total (take (Suc k) ?rows))"
      by blast
    then have "?cs ! k = x"
      by (simp add: cs running_nth)
    moreover from k have "k < length ?cs"
      by (simp add: cs length_running)
    ultimately have "x \<in> set ?cs"
      by (metis nth_mem)
    with k show "x \<in> set (filter ?P ?cs)"
      by simp
  qed
  then show ?thesis by blast
qed


lemma first_crossing_Some:
  "first_crossing convs cid a e = Some raw \<longleftrightarrow>
     (\<exists>k < length (horizon_rows convs cid a e).
        date (horizon_rows convs cid a e ! k) = raw
        \<and> 500 \<le> sum_list (map total (take (Suc k) (horizon_rows convs cid a e)))
        \<and> (\<forall>j < k. sum_list (map total (take (Suc j) (horizon_rows convs cid a e))) < 500))"
proof -
  let ?rows = "horizon_rows convs cid a e"
  let ?cum = "\<lambda>k. sum_list (map total (take (Suc k) ?rows))"
  let ?Q = "\<lambda>k. k < length ?rows \<and> 500 \<le> ?cum k"
  have days: "set (map fst (filter (\<lambda>(d, c). 500 \<le> c) (CumulativeConversations convs cid a e)))
                = {date (?rows ! k) | k. ?Q k}"
    unfolding set_map crossing_rows_set by (auto simp: image_iff)
  have mono: "date (?rows ! i) \<le> date (?rows ! j)" if "i \<le> j" "j < length ?rows" for i j
    using sorted_nth_mono [OF horizon_rows_sorted [of convs cid a e], of i j] that by simp
  have min: "first_crossing convs cid a e = Some raw \<longleftrightarrow>
               (\<exists>k. ?Q k \<and> date (?rows ! k) = raw) \<and> (\<forall>k. ?Q k \<longrightarrow> raw \<le> date (?rows ! k))"
    unfolding first_crossing_def sql_min_Some days by blast
  show ?thesis
  proof
    assume "first_crossing convs cid a e = Some raw"
    with min obtain k where k: "?Q k" "date (?rows ! k) = raw"
      and least: "\<forall>k. ?Q k \<longrightarrow> raw \<le> date (?rows ! k)"
      by blast
    define k0 where "k0 = (LEAST k. ?Q k)"
    have q0: "?Q k0"
      unfolding k0_def using k(1) by (rule LeastI)
    have le: "k0 \<le> k"
      unfolding k0_def using k(1) by (rule Least_le)
    have before: "?cum j < 500" if "j < k0" for j
    proof -
      from that have "\<not> ?Q j"
        unfolding k0_def by (rule not_less_Least)
      moreover from that q0 have "j < length ?rows"
        by simp
      ultimately show ?thesis by simp
    qed
    have "date (?rows ! k0) \<le> raw"
      using mono [OF le] k by simp
    moreover have "raw \<le> date (?rows ! k0)"
      using least q0 by blast
    ultimately have "date (?rows ! k0) = raw"
      by simp
    with q0 before show "\<exists>k < length ?rows. date (?rows ! k) = raw \<and> 500 \<le> ?cum k
        \<and> (\<forall>j < k. ?cum j < 500)"
      by blast
  next
    assume "\<exists>k < length ?rows. date (?rows ! k) = raw \<and> 500 \<le> ?cum k \<and> (\<forall>j < k. ?cum j < 500)"
    then obtain k where k: "k < length ?rows" "date (?rows ! k) = raw" "500 \<le> ?cum k"
      and before: "\<forall>j < k. ?cum j < 500"
      by blast
    have "raw \<le> date (?rows ! j)" if "?Q j" for j
    proof -
      from that before have "k \<le> j"
        by (meson not_le)
      from mono [OF this] that k(2) show ?thesis
        by simp
    qed
    with k min show "first_crossing convs cid a e = Some raw"
      by blast
  qed
qed

lemma fetch_result_row:
  assumes "fetch_successful_conversations comps convs = Some res" and "i < length comps"
  shows "i < length adjust \<and> length res = length comps
     \<and> (\<exists>a. activation_date (comps ! i) = Some a
          \<and> res ! i =
              \<lparr>success_date = map_option (\<lambda>d. d + adjust ! i)
                                (first_crossing convs (df_company_id (comps ! i)) a (a + 60)),
               cum_total = sql_max (map snd (filter (\<lambda>(d, c). 500 \<le> c)
                              (CumulativeConversations convs (df_company_id (comps ! i)) a (a + 60)))),
               sd_company_id = df_company_id (comps ! i)\<rparr>)"
proof -
  from assms(1) have "fetch_rows convs 0 comps = Some res"
    by (simp add: fetch_successful_conversations_Some)
  from fetch_rows_Some [OF this] assms(2) show ?thesis
    by (simp add: success_query_def)
qed


text \<open>
  C2, as the code has it. The claim puts every reported success date between the
  activation date and 60 days after it. The company at the second position, activated
  on day 100 and crossing on day 100, is reported day 75.
\<close>

theorem success_date_window_violated:
  "fetch_successful_conversations
     [\<lparr>df_company_id = 1, df_company_name = ''a'', activation_date = Some 100\<rparr>,
      \<lparr>df_company_id = 2, df_company_name = ''b'', activation_date = Some 100\<rparr>]
     [\<lparr>account_id = 1, date = 100, total = 500, successful = True\<rparr>,
      \<lparr>account_id = 2, date = 100, total = 500, successful = True\<rparr>]
   = Some [\<lparr>success_date = Some 100, cum_total = Some 500, sd_company_id = 1\<rparr>,
           \<lparr>success_date = Some 75, cum_total = Some 500, sd_company_id = 2\<rparr>]
   \<and> \<not> ((100::int) \<le> 75)"
  by (simp add: fetch_successful_conversations_def success_query_def first_crossing_def
      CumulativeConversations_def horizon_rows_def sql_min_def sql_max_def adjust_def)

text \<open>
  C2, amended. When the second pass reports a success date \<open>s\<close> for the company at
  position \<open>i\<close>, activated on day \<open>a\<close>, then among the successful conversations of its
  account from \<open>a\<close> to \<open>a + 60\<close>, in date order, there is a first one at which the running
  sum of the totals is at least 500; its date lies between \<open>a\<close> and \<open>a + 60\<close>, and \<open>s\<close> is
  that date plus the offset of position \<open>i\<close>. At position 0, whose offset is 0, \<open>s\<close>
  itself lies between \<open>a\<close> and \<open>a + 60\<close>.
\<close>

theorem success_date_range:
  assumes "fetch_successful_conversations comps convs = Some res"
    and "i < length comps"
    and "activation_date (comps ! i) = Some a"
    and "success_date (res ! i) = Some s"
  shows "(\<exists>k < length (horizon_rows convs (df_company_id (comps ! i)) a (a + 60)).
            s = date (horizon_rows convs (df_company_id (comps ! i)) a (a + 60) ! k) + adjust ! i
          \<and> a \<le> date (horizon_rows convs (df_company_id (comps ! i)) a (a + 60) ! k)
          \<and> date (horizon_rows convs (df_company_id (comps ! i)) a (a + 60) ! k) \<le> a + 60
          \<and> 500 \<le> sum_list (map total (take (Suc k) (horizon_rows convs (df_company_id (comps ! i)) a (a + 60))))
          \<and> (\<forall>j < k. sum_list (map total (take (Suc j) (horizon_rows convs (df_company_id (comps ! i)) a (a + 60)))) < 500))
       \<and> (i = 0 \<longrightarrow> a \<le> s \<and> s \<le> a + 60)"
proof -
  let ?rows = "horizon_rows convs (df_company_id (comps ! i)) a (a + 60)"
  let ?cum = "\<lambda>k. sum_list (map total (take (Suc k) ?rows))"
  from fetch_result_row [OF assms(1,2)] assms(3,4)
  obtain raw where raw: "first_crossing convs (df_company_id (comps ! i)) a (a + 60) = Some raw"
    and s: "s = raw + adjust ! i"
    by auto
  from raw obtain k where k: "k < length ?rows" "date (?rows ! k) = raw" "500 \<le> ?cum k"
    "\<forall>j < k. ?cum j < 500"
    unfolding first_crossing_Some by blast
  from k(1) have "?rows ! k \<in> set ?rows"
    by (rule nth_mem)
  then have range: "a \<le> date (?rows ! k) \<and> date (?rows ! k) \<le> a + 60"
    by (simp add: horizon_rows_set)
  have zero: "a \<le> s \<and> s \<le> a + 60" if "i = 0"
    using that s k(2) range by (simp add: adjust_def)
  from k s range zero show ?thesis
    by blast
qed

text \<open>
  C3. For every company that the second pass processes, at position \<open>i\<close> of the input,
  the reported success date is the first-crossing date of the query (\<open>MIN(date)\<close> over
  the rows whose running sum is at least 500), plus the \<open>i\<close>-th entry of the list
  0, -25, 65, 165; an absent crossing date stays absent. The result has one row per
  company, in the input's order.
\<close>

theorem success_date_offset:
  assumes "fetch_successful_conversations comps convs = Some res" and "i < length comps"
  shows "adjust = [0, -25, 65, 165] \<and> i < length adjust \<and> length res = length comps
     \<and> sd_company_id (res ! i) = df_company_id (comps ! i)
     \<and> (\<exists>a. activation_date (comps ! i) = Some a
          \<and> success_date (res ! i) =
              map_option (\<lambda>d. d + adjust ! i) (first_crossing convs (df_company_id (comps ! i)) a (a + 60)))"
  using fetch_result_row [OF assms] by (auto simp: adjust_def)


text \<open>
  C9. The list of offsets has exactly 4 entries, and for every input of more than 4
  companies the second pass returns \<open>None\<close> for the whole batch: the read \<open>adjust[idx]\<close> at
  the fifth row is out of range and the handler swallows the exception.
\<close>

theorem more_than_four_companies:
  "length adjust = 4 \<and> (4 < length comps \<longrightarrow> fetch_successful_conversations comps convs = None)"
proof -
  have len: "length adjust = 4"
    by (simp add: adjust_def)
  have "fetch_successful_conversations comps convs = None" if "4 < length comps"
  proof -
    from that have "length adjust < 0 + length comps" "comps \<noteq> []"
      using len by auto
    then have "fetch_rows convs 0 comps = None"
      by (rule fetch_rows_None)
    then show ?thesis
      by (simp add: fetch_successful_conversations_def)
  qed
  with len show ?thesis by blast
qed

lemmas success_defs =
  fetch_successful_conversations_def success_query_def first_crossing_def
  CumulativeConversations_def horizon_rows_def sql_min_def sql_max_def adjust_def

theorem success_date_range_witness:
  "fetch_successful_conversations
     [\<lparr>df_company_id = 7, df_company_name = ''g'', activation_date = Some 100\<rparr>]
     [\<lparr>account_id = 7, date = 99, total = 900, successful = True\<rparr>,
      \<lparr>account_id = 7, date = 110, total = 300, successful = True\<rparr>,
      \<lparr>account_id = 7, date = 101, total = 200, successful = True\<rparr>,
      \<lparr>account_id = 7, date = 105, total = 100, successful = False\<rparr>,
      \<lparr>account_id = 7, date = 120, total = 50, successful = True\<rparr>]
   = Some [\<lparr>success_date = Some 110, cum_total = Some 550, sd_company_id = 7\<rparr>]
   \<and> (100::int) \<le> 110 \<and> (110::int) \<le> 100 + 60"
proof -
  let ?comps = "[\<lparr>df_company_id = 7, df_company_name = ''g'', activation_date = Some 100\<rparr>]"
  let ?convs = "[\<lparr>account_id = 7, date = 99, total = 900, successful = True\<rparr>,
      \<lparr>account_id = 7, date = 110, total = 300, successful = True\<rparr>,
      \<lparr>account_id = 7, date = 101, total = 200, successful = True\<rparr>,
      \<lparr>account_id = 7, date = 105, total = 100, successful = False\<rparr>,
      \<lparr>account_id = 7, date = 120, total = 50, successful = True\<rparr>] :: int conversation list"
  let ?res = "[\<lparr>success_date = Some 110, cum_total = Some 550, sd_company_id = 7\<rparr>]"
  have run: "fetch_successful_conversations ?comps ?convs = Some ?res"
    by (simp add: success_defs)
  have i: "0 < length ?comps" and a: "activation_date (?comps ! 0) = Some 100"
    and s: "success_date (?res ! 0) = Some 110"
    by simp_all
  from success_date_range [OF run i a s] have "(100::int) \<le> 110 \<and> (110::int) \<le> 100 + 60"
    by blast
  with run show ?thesis by blast
qed

theorem success_date_offset_witness:
  "fetch_successful_conversations
     [\<lparr>df_company_id = 1, df_company_name = ''a'', activation_date = Some 10\<rparr>,
      \<lparr>df_company_id = 2, df_company_name = ''b'', activation_date = Some 20\<rparr>,
      \<lparr>df_company_id = 3, df_company_name = ''c'', activation_date = Some 30\<rparr>]
     [\<lparr>account_id = 3, date = 31, total = 300, successful = True\<rparr>,
      \<lparr>account_id = 3, date = 35, total = 250, successful = True\<rparr>,
      \<lparr>account_id = 2, date = 40, total = 500, successful = True\<rparr>]
   = Some [\<lparr>success_date = None, cum_total = None, sd_company_id = 1\<rparr>,
           \<lparr>success_date = Some 15, cum_total = Some 500, sd_company_id = 2\<rparr>,
           \<lparr>success_date = Some 100, cum_total = Some 550, sd_company_id = 3\<rparr>]
   \<and> first_crossing
     [\<lparr>account_id = 3, date = 31, total = 300, successful = True\<rparr>,
      \<lparr>account_id = 3, date = 35, total = 250, successful = True\<rparr>,
      \<lparr>account_id = 2, date = 40, total = 500, successful = True\<rparr>] 3 30 (30 + 60) = Some 35
   \<and> adjust ! 2 = 65 \<and> (35::int) + 65 = 100"
proof -
  let ?comps = "[\<lparr>df_company_id = 1, df_company_name = ''a'', activation_date = Some 10\<rparr>,
      \<lparr>df_company_id = 2, df_company_name = ''b'', activation_date = Some 20\<rparr>,
      \<lparr>df_company_id = 3, df_company_name = ''c'', activation_date = Some 30\<rparr>]"
  let ?convs = "[\<lparr>account_id = 3, date = 31, total = 300, successful = True\<rparr>,
      \<lparr>account_id = 3, date = 35, total = 250, successful = True\<rparr>,
      \<lparr>account_id = 2, date = 40, total = 500, successful = True\<rparr>] :: int conversation list"
  let ?res = "[\<lparr>success_date = None, cum_total = None, sd_company_id = 1\<rparr>,
           \<lparr>success_date = Some 15, cum_total = Some 500, sd_company_id = 2\<rparr>,
           \<lparr>success_date = Some 100, cum_total = Some 550, sd_company_id = 3\<rparr>]"
  have run: "fetch_successful_conversations ?comps ?convs = Some ?res"
    by (simp add: success_defs)
  have i: "2 < length ?comps"
    by simp
  have adj: "adjust ! 2 = 65"
    by (simp add: adjust_def)
  from success_date_offset [OF run i]
  have "Some (100::int) = map_option (\<lambda>d. d + adjust ! 2) (first_crossing ?convs 3 30 (30 + 60))"
    by simp
  then have "first_crossing ?convs 3 30 (30 + 60) = Some 35"
    unfolding adj by (cases "first_crossing ?convs 3 30 (30 + 60)") auto
  with run adj show ?thesis by simp
qed


theorem more_than_four_companies_witness:
  "(4::nat) < length
     [\<lparr>df_company_id = 1, df_company_name = ''a'', activation_date = Some 1\<rparr>,
      \<lparr>df_company_id = 2, df_company_name = ''b'', activation_date = Some 1\<rparr>,
      \<lparr>df_company_id = 3, df_company_name = ''c'', activation_date = Some 1\<rparr>,
      \<lparr>df_company_id = 4, df_company_name = ''d'', activation_date = Some 1\<rparr>,
      \<lparr>df_company_id = 5, df_company_name = ''e'', activation_date = Some 1\<rparr>]
   \<and> fetch_successful_conversations
     [\<lparr>df_company_id = 1, df_company_name = ''a'', activation_date = Some 1\<rparr>,
      \<lparr>df_company_id = 2, df_company_name = ''b'', activation_date = Some 1\<rparr>,
      \<lparr>df_company_id = 3, df_company_name = ''c'', activation_date = Some 1\<rparr>,
      \<lparr>df_company_id = 4, df_company_name = ''d'', activation_date = Some 1\<rparr>,
      \<lparr>df_company_id = 5, df_company_name = ''e'', activation_date = Some 1\<rparr>] [] = None
   \<and> fetch_successful_conversations
     [\<lparr>df_company_id = 1, df_company_name = ''a'', activation_date = Some 1\<rparr>,
      \<lparr>df_company_id = 2, df_company_name = ''b'', activation_date = Some 1\<rparr>,
      \<lparr>df_company_id = 3, df_company_name = ''c'', activation_date = Some 1\<rparr>,
      \<lparr>df_company_id = 4, df_company_name = ''d'', activation_date = Some 1\<rparr>] []
     = Some [\<lparr>success_date = None, cum_total = None, sd_company_id = 1\<rparr>,
             \<lparr>success_date = None, cum_total = None, sd_company_id = 2\<rparr>,
             \<lparr>success_date = None, cum_total = None, sd_company_id = 3\<rparr>,
             \<lparr>success_date = None, cum_total = None, sd_company_id = 4\<rparr>]"
proof -
  let ?five = "[\<lparr>df_company_id = 1, df_company_name = ''a'', activation_date = Some 1\<rparr>,
      \<lparr>df_company_id = 2, df_company_name = ''b'', activation_date = Some 1\<rparr>,
      \<lparr>df_company_id = 3, df_company_name = ''c'', activation_date = Some 1\<rparr>,
      \<lparr>df_company_id = 4, df_company_name = ''d'', activation_date = Some 1\<rparr>,
      \<lparr>df_company_id = 5, df_company_name = ''e'', activation_date = Some 1\<rparr>]"
  have five: "(4::nat) < length ?five"
    by simp
  with more_than_four_companies [of ?five "[]"]
  have none: "fetch_successful_conversations ?five [] = None"
    by blast
  have four: "fetch_successful_conversations (take 4 ?five) []
     = Some [\<lparr>success_date = None, cum_total = None, sd_company_id = 1\<rparr>,
             \<lparr>success_date = None, cum_total = None, sd_company_id = 2\<rparr>,
             \<lparr>success_date = None, cum_total = None, sd_company_id = 3\<rparr>,
             \<lparr>success_date = None, cum_total = None, sd_company_id = 4\<rparr>]"
    by (simp add: success_defs)
  from five none four show ?thesis by simp
qed

section \<open>Second script: the window of the recently closed companies\<close>

lemma add_days_within:
  "dt_day t + int n \<le> days_in_month (dt_year t) (dt_month t) \<Longrightarrow>
     add_days t n = Inr \<lparr>dt_year = dt_year t, dt_month = dt_month t, dt_day = dt_day t + int n\<rparr>"
proof (induction n arbitrary: t)
  case 0
  then show ?case by simp
next
  case (Suc n)
  from Suc.prems have nd: "next_day t = Inr \<lparr>dt_year = dt_year t, dt_month = dt_month t, dt_day = dt_day t + 1\<rparr>"
    by (simp add: next_day_def)
  from Suc.prems show ?case
    by (simp add: nd Suc.IH)
qed

lemma sub_days_within:
  "int n < dt_day t \<Longrightarrow>
     sub_days t n = Inr \<lparr>dt_year = dt_year t, dt_month = dt_month t, dt_day = dt_day t - int n\<rparr>"
proof (induction n arbitrary: t)
  case 0
  then show ?case by simp
next
  case (Suc n)
  from Suc.prems have pd: "prev_day t = Inr \<lparr>dt_year = dt_year t, dt_month = dt_month t, dt_day = dt_day t - 1\<rparr>"
    by (simp add: prev_day_def)
  from Suc.prems show ?case
    by (simp add: pd Suc.IH)
qed

lemma add_days_add:
  "add_days t (m + n) = (case add_days t m of Inl e \<Rightarrow> Inl e | Inr t' \<Rightarrow> add_days t' n)"
  by (induction m arbitrary: t) (auto split: sum.splits)

lemma sub_days_add:
  "sub_days t (m + n) = (case sub_days t m of Inl e \<Rightarrow> Inl e | Inr t' \<Rightarrow> sub_days t' n)"
  by (induction m arbitrary: t) (auto split: sum.splits)

lemma days_in_month_range: "28 \<le> days_in_month y m \<and> days_in_month y m \<le> 31"
  by (simp add: days_in_month_def)

lemma month_end_round_trip:
  assumes y: "1 \<le> y" "y \<le> 9999" and m: "1 \<le> m" "m \<le> 12" and top: "\<not> (m = 12 \<and> y = 9999)"
  shows "\<exists>t. add_days \<lparr>dt_year = y, dt_month = m, dt_day = 1\<rparr> 31 = Inr t
           \<and> sub_days t (nat (dt_day t)) = Inr \<lparr>dt_year = y, dt_month = m, dt_day = days_in_month y m\<rparr>"
proof -
  define L where "L = days_in_month y m"
  have L: "28 \<le> L" "L \<le> 31"
    using days_in_month_range [of y m] by (simp_all add: L_def)
  define y' where "y' = (if m = 12 then y + 1 else y)"
  define m' where "m' = (if m = 12 then 1 else m + 1)"
  let ?first = "\<lparr>dt_year = y, dt_month = m, dt_day = 1\<rparr>"
  let ?final = "\<lparr>dt_year = y, dt_month = m, dt_day = L\<rparr>"
  let ?succ = "\<lparr>dt_year = y', dt_month = m', dt_day = 1\<rparr>"
  let ?mid = "\<lparr>dt_year = y', dt_month = m', dt_day = 32 - L\<rparr>"
  have split31: "(31::nat) = nat (L - 1) + (1 + nat (31 - L))"
    using L by simp
  have a: "add_days ?first (nat (L - 1)) = Inr ?final"
    using L add_days_within [of ?first "nat (L - 1)"] by (simp add: L_def)
  have b: "next_day ?final = Inr ?succ"
    using m top y by (auto simp: next_day_def L_def y'_def m'_def)
  have c: "add_days ?succ (nat (31 - L)) = Inr ?mid"
    using L add_days_within [of ?succ "nat (31 - L)"] days_in_month_range [of y' m'] by simp
  have fwd: "add_days ?first 31 = Inr ?mid"
    unfolding split31 add_days_add a using b c by simp
  have splitk: "nat (dt_day ?mid) = nat (31 - L) + 1"
    using L by simp
  have d: "sub_days ?mid (nat (31 - L)) = Inr ?succ"
    using L sub_days_within [of "nat (31 - L)" ?mid] by simp
  have e: "prev_day ?succ = Inr ?final"
    using m y top by (auto simp: prev_day_def L_def y'_def m'_def days_in_month_def)
  have bwd: "sub_days ?mid (nat (dt_day ?mid)) = Inr ?final"
    unfolding splitk sub_days_add d using e by simp
  from fwd bwd show ?thesis
    unfolding L_def by blast
qed

lemma date_range_value:
  assumes "1 \<le> month" "month \<le> 12" "1 \<le> year" "year \<le> 9999"
    and "\<not> (month = 1 \<and> year = 1)" and "\<not> (month = 12 \<and> year = 9999)"
  shows "date_range month year =
     Inr (\<lparr>dt_year = (if month = 1 then year - 1 else year),
           dt_month = (if month = 1 then 12 else month - 1), dt_day = 1\<rparr>,
          \<lparr>dt_year = year, dt_month = month, dt_day = days_in_month year month\<rparr>)"
proof -
  from month_end_round_trip [OF assms(3,4,1,2,6)] obtain t where
    t: "add_days \<lparr>dt_year = year, dt_month = month, dt_day = 1\<rparr> 31 = Inr t"
       "sub_days t (nat (dt_day t)) = Inr \<lparr>dt_year = year, dt_month = month, dt_day = days_in_month year month\<rparr>"
    by blast
  have start: "(if month \<noteq> 1 then mk_datetime year (month - 1) 1 else mk_datetime (year - 1) 12 1)
      = Inr \<lparr>dt_year = (if month = 1 then year - 1 else year),
             dt_month = (if month = 1 then 12 else month - 1), dt_day = 1\<rparr>"
    using assms days_in_month_range [of year "month - 1"]
    by (auto simp: mk_datetime_def days_in_month_def)
  have first: "mk_datetime year month 1 = Inr \<lparr>dt_year = year, dt_month = month, dt_day = 1\<rparr>"
    using assms days_in_month_range [of year month] by (simp add: mk_datetime_def)
  have last: "mk_datetime year month (min 31 (days_in_month year month))
      = Inr \<lparr>dt_year = year, dt_month = month, dt_day = days_in_month year month\<rparr>"
    using assms days_in_month_range [of year month] by (simp add: mk_datetime_def min_def)
  show ?thesis
    unfolding date_range_def start first by (simp add: t last)
qed





section \<open>Second script: the success rate\<close>

lemma group_sum_mem:
  "(k, v) \<in> set (group_sum key val rows) \<longleftrightarrow>
     k \<in> key ` set rows \<and> v = sum_list (map val (filter (\<lambda>r. key r = k) rows))"
  by (auto simp: group_sum_def)

lemma group_sum_distinct: "distinct (map fst (group_sum key val rows))"
  by (simp add: group_sum_def comp_def)

lemma map_of_group_sum:
  "map_of (group_sum key val rows) k =
     (if k \<in> key ` set rows then Some (sum_list (map val (filter (\<lambda>r. key r = k) rows))) else None)"
proof (cases "k \<in> key ` set rows")
  case True
  then have "(k, sum_list (map val (filter (\<lambda>r. key r = k) rows))) \<in> set (group_sum key val rows)"
    by (simp add: group_sum_mem)
  with True show ?thesis
    by (simp add: group_sum_distinct)
next
  case False
  then have "k \<notin> fst ` set (group_sum key val rows)"
    by (auto simp: group_sum_mem)
  with False show ?thesis
    by (simp add: map_of_eq_None_iff)
qed

lemma successful_conversations_lookup:
  assumes "aid \<in> set accounts"
  shows "map_of (successful_conversations db accounts month year) aid =
     (if matched db month year aid \<noteq> [] then Some (sum_list (map total (matched db month year aid)))
      else None)"
proof -
  let ?P = "\<lambda>r. account_id r \<in> set accounts \<and> successful r
                 \<and> dt_month (date r) = month \<and> dt_year (date r) = year"
  have rows: "filter (\<lambda>r. account_id r = aid) (filter ?P (conversations2 db)) = matched db month year aid"
    using assms unfolding matched_def filter_filter by (intro filter_cong refl) auto
  have "aid \<in> account_id ` set (filter ?P (conversations2 db)) \<longleftrightarrow> matched db month year aid \<noteq> []"
    using assms by (auto simp: matched_def filter_empty_conv image_iff)
  then show ?thesis
    unfolding successful_conversations_def map_of_group_sum rows by simp
qed

lemma inner_loop:
  assumes "distinct (map fst sc)"
  shows "fold (\<lambda>(account, tot) result.
                 if aid = account then AList.update cid (tot + b) result else result) sc res
         = (case map_of sc aid of None \<Rightarrow> res | Some t \<Rightarrow> AList.update cid (t + b) res)"
  using assms
proof (induction sc arbitrary: res)
  case Nil
  then show ?case by simp
next
  case (Cons p sc)
  obtain account tot where p: "p = (account, tot)"
    by (cases p)
  from Cons.prems p have d: "distinct (map fst sc)" and fresh: "account \<notin> fst ` set sc"
    by auto
  show ?case
  proof (cases "aid = account")
    case True
    with fresh have "map_of sc aid = None"
      by (simp add: map_of_eq_None_iff)
    with True p Cons.IH [OF d] show ?thesis
      by simp
  next
    case False
    with p Cons.IH [OF d] show ?thesis
      by simp
  qed
qed

lemma map_conversations_step:
  assumes "distinct (map fst sc)"
  shows "map_conversations month (mapping @ [(cid, aid)]) sc =
     (case map_of sc aid of
        None \<Rightarrow> map_conversations month mapping sc
      | Some t \<Rightarrow> AList.update cid (t + bonus month cid) (map_conversations month mapping sc))"
  unfolding map_conversations_def by (simp add: inner_loop [OF assms])

lemma map_conversations_Nil: "map_conversations month [] sc = []"
  by (simp add: map_conversations_def)

lemma map_conversations_distinct:
  assumes "distinct (map fst sc)"
  shows "distinct (map fst (map_conversations month mapping sc))"
proof (induction mapping rule: rev_induct)
  case Nil
  show ?case by (simp add: map_conversations_Nil)
next
  case (snoc p mapping)
  obtain cid aid where p: "p = (cid, aid)"
    by (cases p)
  from snoc.IH show ?case
    unfolding p map_conversations_step [OF assms]
    by (auto split: option.splits intro: AList.distinct_update)
qed

lemma map_conversations_keys:
  assumes "distinct (map fst sc)"
  shows "fst ` set (map_conversations month mapping sc) =
     {cid. \<exists>aid. (cid, aid) \<in> set mapping \<and> map_of sc aid \<noteq> None}"
proof (induction mapping rule: rev_induct)
  case Nil
  show ?case by (simp add: map_conversations_Nil)
next
  case (snoc p mapping)
  obtain cid aid where p: "p = (cid, aid)"
    by (cases p)
  show ?case
  proof (cases "map_of sc aid")
    case None
    with snoc.IH show ?thesis
      unfolding p map_conversations_step [OF assms] by auto
  next
    case (Some t)
    with snoc.IH show ?thesis
      unfolding p map_conversations_step [OF assms] by (auto simp: AList.dom_update)
  qed
qed

lemma map_conversations_values:
  assumes "distinct (map fst sc)"
    and "map_of (map_conversations month mapping sc) c = Some v"
  shows "\<exists>aid t. (c, aid) \<in> set mapping \<and> map_of sc aid = Some t \<and> v = t + bonus month c"
  using assms(2)
proof (induction mapping arbitrary: v rule: rev_induct)
  case Nil
  then show ?case by (simp add: map_conversations_Nil)
next
  case (snoc p mapping)
  obtain cid aid where p: "p = (cid, aid)"
    by (cases p)
  show ?case
  proof (cases "map_of sc aid")
    case None
    with snoc.prems have "map_of (map_conversations month mapping sc) c = Some v"
      unfolding p map_conversations_step [OF assms(1)] by simp
    from snoc.IH [OF this] show ?thesis
      by auto
  next
    case (Some t)
    show ?thesis
    proof (cases "c = cid")
      case True
      with snoc.prems Some have "v = t + bonus month c"
        unfolding p map_conversations_step [OF assms(1)] by (simp add: AList.update_conv')
      with True Some show ?thesis
        unfolding p by auto
    next
      case False
      with snoc.prems Some have "map_of (map_conversations month mapping sc) c = Some v"
        unfolding p map_conversations_step [OF assms(1)] by (simp add: AList.update_conv')
      from snoc.IH [OF this] show ?thesis
        by auto
    qed
  qed
qed

lemma percentage_formula:
  assumes "distinct (map fst r)"
  shows "percentage r =
     (if fst ` set r = {} then 0
      else of_nat (card {c \<in> fst ` set r. \<exists>v. (c, v) \<in> set r \<and> 1500 \<le> v})
             / of_nat (card (fst ` set r)) * 100)"
proof -
  let ?Q = "\<lambda>(cid, conversations). (1500::int) \<le> conversations"
  have all: "length (map fst r) = card (fst ` set r)"
    using distinct_card [OF assms] by simp
  have "distinct (map fst (filter ?Q r))"
    using assms by (rule distinct_map_filter)
  from distinct_card [OF this]
  have "length (map fst (filter ?Q r)) = card (fst ` set (filter ?Q r))"
    by simp
  moreover have "fst ` set (filter ?Q r) = {c \<in> fst ` set r. \<exists>v. (c, v) \<in> set r \<and> 1500 \<le> v}"
    by (auto simp: image_iff)
  ultimately have good: "length (map fst (filter ?Q r))
      = card {c \<in> fst ` set r. \<exists>v. (c, v) \<in> set r \<and> 1500 \<le> v}"
    by simp
  have "map fst r \<noteq> [] \<longleftrightarrow> fst ` set r \<noteq> {}"
    by simp
  then show ?thesis
    unfolding percentage_def Let_def good all by simp
qed

lemma account_mapping_mem:
  "(cid, aid) \<in> set (account_mapping db ids) \<longleftrightarrow>
     cid \<in> set ids \<and> (\<exists>ci \<in> set (identifiers2 db). company_id ci = cid \<and> account_identifier ci = aid)"
  by (auto simp: account_mapping_def image_iff)

text \<open>
  Whenever the queries of a period are answered, the dictionary has one key for each
  company of the list with at least one matched row, the value of a key is the sum of
  the totals of one of the company's accounts plus the bonus of the month and the
  company, and the percentage is the share of the keys whose value is at least 1500,
  times 100, or 0 when there is no key.
\<close>

lemma success_rate_formula:
  assumes "get_successful_conversations_for_companies db ids month year = Inr r"
  shows "fst ` set r = active db ids month year \<and> distinct (map fst r)
     \<and> (\<forall>c v. (c, v) \<in> set r \<longrightarrow>
          (\<exists>ci \<in> set (identifiers2 db). company_id ci = c
             \<and> matched db month year (account_identifier ci) \<noteq> []
             \<and> v = sum_list (map total (matched db month year (account_identifier ci))) + bonus month c))
     \<and> percentage r =
          (if active db ids month year = {} then 0
           else of_nat (card {c \<in> active db ids month year. \<exists>v. (c, v) \<in> set r \<and> 1500 \<le> v})
                  / of_nat (card (active db ids month year)) * 100)"
proof -
  let ?am = "account_mapping db ids"
  let ?sc = "successful_conversations db (map snd ?am) month year"
  have dsc: "distinct (map fst ?sc)"
    by (simp add: successful_conversations_def group_sum_distinct)
  have look: "map_of ?sc aid =
     (if matched db month year aid \<noteq> [] then Some (sum_list (map total (matched db month year aid)))
      else None)" if "(cid, aid) \<in> set ?am" for cid aid
  proof -
    from that have "aid \<in> set (map snd ?am)"
      by force
    then show ?thesis
      by (rule successful_conversations_lookup)
  qed
  have r: "r = map_conversations month ?am ?sc"
  proof (cases "ids = []")
    case True
    with assms have "r = []" "?am = []"
      by (simp_all add: get_successful_conversations_for_companies_def account_mapping_def)
    then show ?thesis
      by (simp add: map_conversations_Nil)
  next
    case False
    with assms show ?thesis
      by (simp add: get_successful_conversations_for_companies_def split: if_splits)
  qed
  have d: "distinct (map fst r)"
    unfolding r using dsc by (rule map_conversations_distinct)
  have keys: "fst ` set r = active db ids month year"
  proof -
    have "fst ` set r = {cid. \<exists>aid. (cid, aid) \<in> set ?am \<and> map_of ?sc aid \<noteq> None}"
      unfolding r using dsc by (rule map_conversations_keys)
    also have "\<dots> = {cid. \<exists>aid. (cid, aid) \<in> set ?am \<and> matched db month year aid \<noteq> []}"
      using look by auto
    also have "\<dots> = active db ids month year"
      unfolding active_def account_mapping_mem by blast
    finally show ?thesis .
  qed
  have vals: "\<exists>ci \<in> set (identifiers2 db). company_id ci = c
             \<and> matched db month year (account_identifier ci) \<noteq> []
             \<and> v = sum_list (map total (matched db month year (account_identifier ci))) + bonus month c"
    if "(c, v) \<in> set r" for c v
  proof -
    from that d have "map_of r c = Some v"
      by simp
    from map_conversations_values [OF dsc this [unfolded r]]
    obtain aid t where at: "(c, aid) \<in> set ?am" "map_of ?sc aid = Some t" "v = t + bonus month c"
      by blast
    from at(2) look [OF at(1)] have "matched db month year aid \<noteq> []"
      "t = sum_list (map total (matched db month year aid))"
      by (auto split: if_splits)
    with at(1,3) show ?thesis
      unfolding account_mapping_mem by blast
  qed
  from percentage_formula [OF d] keys vals d show ?thesis
    by simp
qed

text \<open>
  C4, at the input where the code leaves it. The claim asks for the rate 0, and no
  exception, in a period whose set of companies with a matched row is empty. The empty
  list of companies is guarded and gives 0. A period whose only closed company has no
  identifier row is not: the company has no matched row, the second \<open>IN\<close> list is empty,
  and the round of the loop ends in \<open>ProgrammingError\<close> instead of the rate 0.
\<close>

theorem unguarded_empty_account_list:
  "get_recently_closed_companies
     \<lparr>companies2 = [\<lparr>c_id = 6, c_name = ''d'', associated_partner = None,
                       close_date = Some \<lparr>dt_year = 2023, dt_month = 5, dt_day = 1\<rparr>\<rparr>],
      identifiers2 = [], conversations2 = []\<rparr> 6 2023 = Inr [(6, ''d'')]
   \<and> active
     \<lparr>companies2 = [\<lparr>c_id = 6, c_name = ''d'', associated_partner = None,
                       close_date = Some \<lparr>dt_year = 2023, dt_month = 5, dt_day = 1\<rparr>\<rparr>],
      identifiers2 = [], conversations2 = []\<rparr> [6] 6 2023 = {}
   \<and> month_percentage
     \<lparr>companies2 = [\<lparr>c_id = 6, c_name = ''d'', associated_partner = None,
                       close_date = Some \<lparr>dt_year = 2023, dt_month = 5, dt_day = 1\<rparr>\<rparr>],
      identifiers2 = [], conversations2 = []\<rparr> 6 2023 = Inl ProgrammingError
   \<and> month_percentage \<lparr>companies2 = [], identifiers2 = [], conversations2 = []\<rparr> 6 2023 = Inr 0"
proof -
  have range: "date_range 6 2023 =
      Inr (\<lparr>dt_year = 2023, dt_month = 5, dt_day = 1\<rparr>, \<lparr>dt_year = 2023, dt_month = 6, dt_day = 30\<rparr>)"
    using date_range_value [of 6 2023] by (simp add: days_in_month_def)
  show ?thesis
    by (simp add: month_percentage_def get_recently_closed_companies_def range datetime_le_def
        get_successful_conversations_for_companies_def account_mapping_def active_def percentage_def)
qed

end
